theory Spec2Isabelle
  imports Complex_Main "HOL-Library.Char_ord" "HOL-Library.List_Lexorder"
begin

section \<open>Host runtime: time stamps\<close>

text \<open>
  Every time stamp of the monitoring code is a string made by
  \<^verbatim>\<open>new Date(ms).toISOString()\<close> and compared with the string operators
  \<^verbatim>\<open><\<close> and \<^verbatim>\<open>>\<close>. The strings are kept as strings here; their order is the
  lexicographic order on characters (\<open>HOL-Library.List_Lexorder\<close> over
  \<open>HOL-Library.Char_ord\<close>), which is the order of JavaScript on ASCII strings.

  \<open>toISOString\<close> is the host's formatting of an instant, given in milliseconds
  since 1970-01-01T00:00:00Z, as \<^verbatim>\<open>YYYY-MM-DDTHH:mm:ss.sssZ\<close>. It follows the
  definitions of ECMAScript: \<open>DayFromYear\<close> is the day number of the first day of a
  year, the year of a day is the largest year whose first day is not after it, and the
  month and the date come from the day within the year. Years outside 0..9999 are
  written with a sign and six digits.
\<close>

definition digit :: "nat \<Rightarrow> char" where
  "digit d = (''0123456789'') ! (d mod 10)"

primrec pad :: "nat \<Rightarrow> nat \<Rightarrow> string" where
  "pad 0 n = []"
| "pad (Suc w) n = pad w (n div 10) @ [digit n]"

definition DayFromYear :: "int \<Rightarrow> int" where
  "DayFromYear y =
     365 * (y - 1970) + (y - 1969) div 4 - (y - 1901) div 100 + (y - 1601) div 400"

definition InLeapYear :: "int \<Rightarrow> bool" where
  "InLeapYear y = (y mod 4 = 0 \<and> (y mod 100 \<noteq> 0 \<or> y mod 400 = 0))"

text \<open>The search for the year of day \<open>d\<close>, upwards from a year that is not after it.\<close>

function year_search :: "int \<Rightarrow> int \<Rightarrow> int" where
  "year_search y d = (if DayFromYear (y + 1) \<le> d then year_search (y + 1) d else y)"
  by pat_completeness auto
termination
proof (relation "measure (\<lambda>(y, d). nat (d + 1 - DayFromYear (y + 1)))")
  show "wf (measure (\<lambda>(y, d). nat (d + 1 - DayFromYear (y + 1))))" by simp
next
  fix y d :: int
  assume a: "DayFromYear (y + 1) \<le> d"
  have "(y - 1968) div 4 \<le> (y - 1967) div 4" by (rule zdiv_mono1) simp_all
  moreover have "(y - 1600) div 400 \<le> (y - 1599) div 400" by (rule zdiv_mono1) simp_all
  moreover have "(y - 1899) div 100 \<le> (y - 1900 + 100) div 100" by (rule zdiv_mono1) simp_all
  then have "(y - 1899) div 100 \<le> (y - 1900) div 100 + 1" by simp
  ultimately have "DayFromYear (y + 1) < DayFromYear (y + 1 + 1)"
    unfolding DayFromYear_def by simp
  with a show "((y + 1, d), (y, d)) \<in> measure (\<lambda>(y, d). nat (d + 1 - DayFromYear (y + 1)))"
    by simp
qed

declare year_search.simps [simp del]

definition YearFromDay :: "int \<Rightarrow> int" where
  "YearFromDay d = year_search (1970 + (if 0 \<le> d then d div 366 else d div 365)) d"

definition month_lengths :: "int \<Rightarrow> nat list" where
  "month_lengths y =
     [31, if InLeapYear y then 29 else 28, 31, 30, 31, 30, 31, 31, 30, 31, 30, 31]"

text \<open>
  The month (counted from 0) and the day within the month (counted from 0) of the day
  \<open>dw\<close> within a year whose months have the lengths \<open>lens\<close>.
\<close>

fun month_walk :: "nat \<Rightarrow> nat list \<Rightarrow> nat \<Rightarrow> nat \<times> nat" where
  "month_walk dw [] m = (m, dw)"
| "month_walk dw (len # lens) m =
     (if dw < len then (m, dw) else month_walk (dw - len) lens (Suc m))"

definition year_string :: "int \<Rightarrow> string" where
  "year_string y =
     (if 0 \<le> y \<and> y \<le> 9999 then pad 4 (nat y)
      else if y < 0 then ''-'' @ pad 6 (nat (- y))
      else ''+'' @ pad 6 (nat y))"

definition date_string :: "int \<Rightarrow> string" where
  "date_string day =
     (let y = YearFromDay day;
          (m, r) = month_walk (nat (day - DayFromYear y)) (month_lengths y) 0
      in year_string y @ ''-'' @ pad 2 (m + 1) @ ''-'' @ pad 2 (r + 1))"

definition time_string :: "nat \<Rightarrow> string" where
  "time_string t =
     pad 2 (t div 3600000) @ '':'' @ pad 2 ((t div 60000) mod 60) @ '':'' @
     pad 2 ((t div 1000) mod 60) @ ''.'' @ pad 3 (t mod 1000) @ ''Z''"

definition toISOString :: "int \<Rightarrow> string" where
  "toISOString ms =
     date_string (ms div 86400000) @ ''T'' @ time_string (nat (ms mod 86400000))"

text \<open>The last instant of the year 9999.\<close>

definition maxInstant :: int where
  "maxInstant = 253402300799999"

section \<open>ErrorMonitor.ts: the failure ledger\<close>

datatype report_type = react_boundary | console_error | unhandled_rejection | runtime_error

text \<open>A JavaScript \<^verbatim>\<open>Error\<close>: its message and its optional stack.\<close>

record Error =
  message :: string
  stack :: "string option"

text \<open>
  \<^verbatim>\<open>interface ErrorReport\<close>. An optional property is an \<open>option\<close>; \<open>None\<close> is
  \<^verbatim>\<open>undefined\<close>. The opaque \<^verbatim>\<open>context\<close> mapping is kept as a list of keys with
  rendered values, \<^verbatim>\<open>errorInfo\<close> as its component stack.
\<close>

record ErrorReport =
  rtype :: report_type
  error :: Error
  errorInfo :: "string option"
  timestamp :: string
  report_context :: "(string \<times> string) list option"
  userAgent :: "string option"
  url :: "string option"
  userId :: "string option"
  sessionId :: "string option"

text \<open>
  What \<^verbatim>\<open>reportError\<close> reads of the host: \<^verbatim>\<open>navigator.userAgent\<close> and
  \<^verbatim>\<open>window.location.href\<close>, each \<open>None\<close> where the global does not exist.
\<close>

record host =
  navigator_userAgent :: "string option"
  window_location_href :: "string option"

text \<open>
  The state of \<^verbatim>\<open>ErrorMonitorClass\<close> that the ledger operations read and write.
  \<^verbatim>\<open>maxStoredErrors\<close> is a private field initialised to 100 and never assigned again.
\<close>

record ErrorMonitorClass =
  errors :: "ErrorReport list"
  this_sessionId :: string

definition maxStoredErrors :: nat where
  "maxStoredErrors = 100"

text \<open>
  \<^verbatim>\<open>reportError\<close>: the enhanced report is the given one with \<^verbatim>\<open>sessionId\<close>,
  \<^verbatim>\<open>userAgent\<close> and \<^verbatim>\<open>url\<close> written after the spread of the argument; it is
  put at the front (\<^verbatim>\<open>unshift\<close>) and the ledger is cut to its first
  \<^verbatim>\<open>maxStoredErrors\<close> entries when longer. Logging, the listeners and the write
  to \<^verbatim>\<open>localStorage\<close> follow and do not assign \<^verbatim>\<open>this.errors\<close>.
\<close>

definition enhance :: "host \<Rightarrow> ErrorMonitorClass \<Rightarrow> ErrorReport \<Rightarrow> ErrorReport" where
  "enhance h st report =
     report\<lparr> sessionId := Some (this_sessionId st),
             userAgent := navigator_userAgent h,
             url := window_location_href h \<rparr>"

definition reportError :: "host \<Rightarrow> ErrorReport \<Rightarrow> ErrorMonitorClass \<Rightarrow> ErrorMonitorClass" where
  "reportError h report st =
     (let enhancedReport = enhance h st report;
          es = enhancedReport # errors st
      in st\<lparr> errors := (if length es > maxStoredErrors then take maxStoredErrors es else es) \<rparr>)"

text \<open>A sequence of \<^verbatim>\<open>reportError\<close> calls, in the order they are made.\<close>

fun reportAll :: "host \<Rightarrow> ErrorReport list \<Rightarrow> ErrorMonitorClass \<Rightarrow> ErrorMonitorClass" where
  "reportAll h [] st = st"
| "reportAll h (r # rs) st = reportAll h rs (reportError h r st)"

text \<open>
  A report as its reporter makes it at the instant \<open>t\<close>: every reporter of the
  repository sets \<^verbatim>\<open>timestamp: new Date().toISOString()\<close>.
\<close>

definition stamped :: "int \<times> ErrorReport \<Rightarrow> ErrorReport" where
  "stamped tr = (snd tr)\<lparr> timestamp := toISOString (fst tr) \<rparr>"

text \<open>
  What \<^verbatim>\<open>loadPersistedErrors\<close> finds under the key \<^verbatim>\<open>error-monitor-data\<close>: no
  \<^verbatim>\<open>localStorage\<close> at all, no item, an item that \<^verbatim>\<open>JSON.parse\<close> rejects (the
  exception is caught and logged), or parsed data whose \<^verbatim>\<open>errors\<close> property is an
  array (\<open>Some\<close>) or is not (\<open>None\<close>).
\<close>

datatype persisted = NoLocalStorage | NoItem | ParseFailure | Parsed "ErrorReport list option"

definition loadPersistedErrors :: "int \<Rightarrow> persisted \<Rightarrow> ErrorMonitorClass \<Rightarrow> ErrorMonitorClass" where
  "loadPersistedErrors now stored st =
     (case stored of
        Parsed (Some data_errors) \<Rightarrow>
          (let oneDayAgo = toISOString (now - 24 * 60 * 60 * 1000);
               recentErrors = filter (\<lambda>e. timestamp e > oneDayAgo) data_errors
           in st\<lparr> errors := recentErrors @ errors st \<rparr>)
      | _ \<Rightarrow> st)"

text \<open>
  \<^verbatim>\<open>getErrorStats\<close>, the two results the health check reads: the total and the
  first ten entries of the ledger (\<^verbatim>\<open>this.errors.slice(0, 10)\<close>). The counts by
  type and by message and the top errors, which the health check does not read, are
  left out.
\<close>

record ErrorStats =
  totalErrors :: nat
  recentErrors :: "ErrorReport list"

definition getErrorStats :: "ErrorMonitorClass \<Rightarrow> ErrorStats" where
  "getErrorStats st = \<lparr> totalErrors = length (errors st), recentErrors = take 10 (errors st) \<rparr>"

datatype health_status = healthy | warning | critical

record SystemHealth =
  status :: health_status
  recentErrorCount :: nat

text \<open>
  \<^verbatim>\<open>MonitoringSystem.getSystemHealth\<close>: the recent errors are counted among
  \<^verbatim>\<open>errorStats.recentErrors\<close>. Of the result, the status and the count (the
  property \<^verbatim>\<open>recentErrors\<close>) are kept; the flags of the components and the uptime
  do not depend on the ledger.
\<close>

definition getSystemHealth :: "int \<Rightarrow> ErrorMonitorClass \<Rightarrow> SystemHealth" where
  "getSystemHealth now st =
     (let errorStats = getErrorStats st;
          fiveMinutesAgo = toISOString (now - 5 * 60 * 1000);
          n = length (filter (\<lambda>e. timestamp e > fiveMinutesAgo) (recentErrors errorStats))
      in \<lparr> status = (if n > 10 then critical else if n > 5 then warning else healthy),
           recentErrorCount = n \<rparr>)"

section \<open>FixRegistry: the remediation rules\<close>

text \<open>
  What a call of a callback does: it returns a value, or it throws (for an asynchronous
  function: the awaited promise resolves, or it rejects).
\<close>

datatype 'a outcome = Returns 'a | Throws

text \<open>
  The entries of \<^verbatim>\<open>filterPatterns\<close> (\<^verbatim>\<open>Array<string | RegExp>\<close>). A regular
  expression there is its \<^verbatim>\<open>test\<close> method, a predicate on strings (no
  \<^verbatim>\<open>g\<close> or \<^verbatim>\<open>y\<close> flag: the test keeps no position between calls).
\<close>

datatype pattern = Literal string | RegExp "string \<Rightarrow> bool"

text \<open>\<^verbatim>\<open>String.prototype.includes\<close>: the second string occurs in the first.\<close>

fun startsWith :: "string \<Rightarrow> string \<Rightarrow> bool" where
  "startsWith s [] = True"
| "startsWith [] (p # ps) = False"
| "startsWith (c # s) (p # ps) = (c = p \<and> startsWith s ps)"

fun str_includes :: "string \<Rightarrow> string \<Rightarrow> bool" where
  "str_includes [] p = startsWith [] p"
| "str_includes (c # s) p = (startsWith (c # s) p \<or> str_includes s p)"

text \<open>
  A \<^verbatim>\<open>RegExp\<close> object, as far as \<^verbatim>\<open>test\<close> goes: what the matcher of the host
  finds in a string when it starts at an index (the index where the match it finds
  ends, if it finds one), whether the expression has the \<^verbatim>\<open>g\<close> or the \<^verbatim>\<open>y\<close>
  flag, and its \<^verbatim>\<open>lastIndex\<close>.
\<close>

record RegExpObject =
  re_exec :: "string \<Rightarrow> nat \<Rightarrow> nat option"
  re_global_or_sticky :: bool
  lastIndex :: nat

text \<open>
  \<^verbatim>\<open>RegExp.prototype.test\<close>: the result, and the object as the call leaves it. With
  the \<^verbatim>\<open>g\<close> or the \<^verbatim>\<open>y\<close> flag the match starts at \<^verbatim>\<open>lastIndex\<close>, which a
  match moves to its end and a failure sets back to 0; without them the match starts
  at 0 and \<^verbatim>\<open>lastIndex\<close> stays.
\<close>

definition regexp_test :: "RegExpObject \<Rightarrow> string \<Rightarrow> bool \<times> RegExpObject" where
  "regexp_test re s =
     (if re_global_or_sticky re
      then (if lastIndex re > length s then (False, re\<lparr> lastIndex := 0 \<rparr>)
            else (case re_exec re s (lastIndex re) of
                    None \<Rightarrow> (False, re\<lparr> lastIndex := 0 \<rparr>)
                  | Some e \<Rightarrow> (True, re\<lparr> lastIndex := e \<rparr>)))
      else (case re_exec re s 0 of None \<Rightarrow> (False, re) | Some e \<Rightarrow> (True, re)))"

text \<open>
  \<^verbatim>\<open>errorPattern: RegExp | string\<close>. The rule holds its \<^verbatim>\<open>RegExp\<close> object: no two
  rules share one (every rule of the repository is made with a regular-expression
  literal of its own).
\<close>

datatype error_pattern = StringPattern string | RegExpPattern RegExpObject

datatype fix_category = dependency | configuration | runtime | ui | build

text \<open>
  \<^verbatim>\<open>interface ErrorFix\<close>. The four properties that \<^verbatim>\<open>registerFix\<close> tests for
  presence are options, \<open>None\<close> being a property that is not there (the import path
  hands over parsed JSON typed \<^verbatim>\<open>any\<close>); so are the three that the interface marks
  optional and \<^verbatim>\<open>conditions\<close>. A condition is a zero-argument callback, given here
  by what a call of it does. \<^verbatim>\<open>fixFunction\<close> is given by what its awaited call does
  on an error. \<^verbatim>\<open>successRate\<close> is a JavaScript number, taken as a real.
\<close>

record ErrorFix =
  fix_id :: "string option"
  name :: "string option"
  description :: string
  errorPattern :: "error_pattern option"
  errorTypes :: "string list"
  fixFunction :: "(Error \<Rightarrow> bool outcome) option"
  conditions :: "bool outcome list option"
  priority :: int
  category :: fix_category
  successRate :: "real option"
  lastUsed :: "string option"
  timesUsed :: "nat option"

text \<open>
  An entry of \<^verbatim>\<open>fixHistory\<close>. The source stores the rule object itself; the entry
  keeps its id.
\<close>

record FixAttempt =
  attempt_fix :: "string option"
  attempt_success :: bool
  attempt_timestamp :: string
  attempt_error :: Error

record FixRegistryClass =
  this_fixes :: "ErrorFix list"
  fixHistory :: "FixAttempt list"

datatype thrown = InvalidFixRegistration | FixAlreadyExists "string option"

text \<open>
  JavaScript's \<^verbatim>\<open>!x\<close> on the tested properties: true of a missing property and of
  the empty string.
\<close>

definition falsy_string :: "string option \<Rightarrow> bool" where
  "falsy_string s = (case s of None \<Rightarrow> True | Some t \<Rightarrow> t = [])"

definition falsy_pattern :: "error_pattern option \<Rightarrow> bool" where
  "falsy_pattern p =
     (case p of None \<Rightarrow> True | Some (StringPattern t) \<Rightarrow> t = [] | Some (RegExpPattern re) \<Rightarrow> False)"

definition falsy_function :: "(Error \<Rightarrow> bool outcome) option \<Rightarrow> bool" where
  "falsy_function f = (case f of None \<Rightarrow> True | Some g \<Rightarrow> False)"

text \<open>
  \<^verbatim>\<open>this.fixes.sort((a, b) => b.priority - a.priority)\<close>: the sort of ECMAScript is
  stable, so this is the stable sort by descending priority.
\<close>

definition sortFixesByPriority :: "ErrorFix list \<Rightarrow> ErrorFix list" where
  "sortFixesByPriority fs = sort_key (\<lambda>f. - priority f) fs"

text \<open>
  \<^verbatim>\<open>registerFix\<close> returns what it threw, if anything, and the registry after the
  call. \<open>now\<close> is the clock (\<^verbatim>\<open>Date.now()\<close>) at the call.
\<close>

definition registerFix :: "int \<Rightarrow> ErrorFix \<Rightarrow> FixRegistryClass \<Rightarrow> thrown option \<times> FixRegistryClass" where
  "registerFix now fix st =
     (if falsy_string (fix_id fix) \<or> falsy_string (name fix) \<or> falsy_pattern (errorPattern fix)
         \<or> falsy_function (fixFunction fix)
      then (Some InvalidFixRegistration, st)
      else if list_ex (\<lambda>f. fix_id f = fix_id fix) (this_fixes st)
      then (Some (FixAlreadyExists (fix_id fix)), st)
      else
        (let completeFix = fix\<lparr>
               successRate := Some (case successRate fix of None \<Rightarrow> 0 | Some r \<Rightarrow> r),
               lastUsed := Some (case lastUsed fix of None \<Rightarrow> toISOString now
                               | Some l \<Rightarrow> if l = [] then toISOString now else l),
               timesUsed := Some (case timesUsed fix of None \<Rightarrow> 0 | Some n \<Rightarrow> n) \<rparr>
         in (None, st\<lparr> this_fixes := sortFixesByPriority (this_fixes st @ [completeFix]) \<rparr>)))"

fun checkConditions :: "bool outcome list \<Rightarrow> bool" where
  "checkConditions [] = True"
| "checkConditions (Throws # cs) = False"
| "checkConditions (Returns b # cs) = (if \<not> b then False else checkConditions cs)"

text \<open>
  \<^verbatim>\<open>matchesFix\<close>: the result of the call, and the rule object as the call leaves
  it (the \<^verbatim>\<open>lastIndex\<close> of its pattern can have moved). \<open>test_either\<close> is
  \<^verbatim>\<open>pattern.test(message) || pattern.test(stack)\<close>: the second test, on the stack,
  runs only when the first, on the message, fails. A pattern that
  is not there is \<^verbatim>\<open>undefined\<close>, which \<^verbatim>\<open>includes\<close> turns into the text
  "undefined"; no registered rule has one.
\<close>

definition test_either :: "RegExpObject \<Rightarrow> string \<Rightarrow> string \<Rightarrow> bool \<times> RegExpObject" where
  "test_either re msg stk =
     (case regexp_test re msg of
        (b1, re1) \<Rightarrow> if b1 then (True, re1) else regexp_test re1 stk)"

definition matchesFix_call :: "Error \<Rightarrow> ErrorFix \<Rightarrow> bool \<times> ErrorFix" where
  "matchesFix_call err fix =
     (let msg = message err;
          stk = (case stack err of None \<Rightarrow> [] | Some s \<Rightarrow> s);
          tested =
            (case errorPattern fix of
               Some (RegExpPattern re) \<Rightarrow>
                 (case test_either re msg stk of (b, re') \<Rightarrow> (b, Some (RegExpPattern re')))
             | Some (StringPattern p) \<Rightarrow>
                 (str_includes msg p \<or> str_includes stk p, Some (StringPattern p))
             | None \<Rightarrow> (str_includes msg ''undefined'' \<or> str_includes stk ''undefined'', None));
          patternMatches = fst tested;
          fix' = fix\<lparr> errorPattern := snd tested \<rparr>
      in if \<not> patternMatches then (False, fix')
         else ((case conditions fix of None \<Rightarrow> True | Some cs \<Rightarrow> checkConditions cs), fix'))"

definition matchesFix :: "Error \<Rightarrow> ErrorFix \<Rightarrow> bool" where
  "matchesFix err fix = fst (matchesFix_call err fix)"

definition matchesFix_leaves :: "Error \<Rightarrow> ErrorFix \<Rightarrow> ErrorFix" where
  "matchesFix_leaves err fix = snd (matchesFix_call err fix)"

text \<open>
  \<^verbatim>\<open>findFix\<close>: the loop over \<^verbatim>\<open>this.fixes\<close>, first rule first. The result is
  the rule object of the first call of \<^verbatim>\<open>matchesFix\<close> that returns true, as that call
  leaves it; \<open>fixes_after_findFix\<close> is the list after the scan, every rule that was
  tested being as its test leaves it. The scan is taken as a whole: no registration or
  removal runs between two of its steps.
\<close>

fun findFix_loop :: "Error \<Rightarrow> ErrorFix list \<Rightarrow> ErrorFix option" where
  "findFix_loop err [] = None"
| "findFix_loop err (fix # rest) =
     (if matchesFix err fix then Some (matchesFix_leaves err fix) else findFix_loop err rest)"

fun fixes_after_findFix :: "Error \<Rightarrow> ErrorFix list \<Rightarrow> ErrorFix list" where
  "fixes_after_findFix err [] = []"
| "fixes_after_findFix err (fix # rest) =
     matchesFix_leaves err fix #
       (if matchesFix err fix then rest else fixes_after_findFix err rest)"

definition findFix :: "Error \<Rightarrow> FixRegistryClass \<Rightarrow> ErrorFix option" where
  "findFix err st = findFix_loop err (this_fixes st)"

definition findFix_leaves :: "Error \<Rightarrow> FixRegistryClass \<Rightarrow> FixRegistryClass" where
  "findFix_leaves err st = st\<lparr> this_fixes := fixes_after_findFix err (this_fixes st) \<rparr>"

text \<open>
  \<^verbatim>\<open>applyFix\<close> on a rule object and the history: the result, the rule as the call
  leaves it and the history. A rule without \<^verbatim>\<open>fixFunction\<close> makes the call of it
  throw inside the \<^verbatim>\<open>try\<close>.
\<close>

definition applyFix :: "int \<Rightarrow> Error \<Rightarrow> ErrorFix \<Rightarrow> FixAttempt list \<Rightarrow> bool \<times> ErrorFix \<times> FixAttempt list" where
  "applyFix now err fix history =
     (case (case fixFunction fix of None \<Rightarrow> Throws | Some f \<Rightarrow> f err) of
        Returns success \<Rightarrow>
          (let currentTimesUsed = (case timesUsed fix of None \<Rightarrow> 0 | Some n \<Rightarrow> n) + 1;
               fix1 = fix\<lparr> timesUsed := Some currentTimesUsed, lastUsed := Some (toISOString now) \<rparr>;
               fix2 = (if success
                       then (let currentSuccessRate = (case successRate fix1 of None \<Rightarrow> 0 | Some r \<Rightarrow> r)
                             in fix1\<lparr> successRate :=
                                  Some ((currentSuccessRate * (real currentTimesUsed - 1) + 1) / real currentTimesUsed) \<rparr>)
                       else fix1);
               h1 = history @ [\<lparr> attempt_fix = fix_id fix, attempt_success = success,
                                 attempt_timestamp = toISOString now, attempt_error = err \<rparr>];
               h2 = (if length h1 > 100 then drop (length h1 - 50) h1 else h1)
           in (success, fix2, h2))
      | Throws \<Rightarrow>
          (False, fix, history @ [\<lparr> attempt_fix = fix_id fix, attempt_success = False,
                                     attempt_timestamp = toISOString now, attempt_error = err \<rparr>]))"

text \<open>
  A sequence of \<^verbatim>\<open>applyFix\<close> calls on one rule object, one per error of the list,
  the clock advancing by \<open>dt\<close> between calls.
\<close>

fun applyFixes :: "int \<Rightarrow> int \<Rightarrow> Error list \<Rightarrow> ErrorFix \<times> FixAttempt list \<Rightarrow> ErrorFix \<times> FixAttempt list" where
  "applyFixes now dt [] (fix, history) = (fix, history)"
| "applyFixes now dt (err # errs) (fix, history) =
     applyFixes (now + dt) dt errs (snd (applyFix now err fix history))"






section \<open>ConsoleInterceptor.ts: the capture of console calls\<close>

datatype level = lvl_error | lvl_warn | lvl_info | lvl_debug | lvl_log

text \<open>
  An argument of a console call, by the branch of the stringification it takes: a
  string, an \<^verbatim>\<open>Error\<close>, another object (with what \<^verbatim>\<open>JSON.stringify\<close> does on it
  and its \<^verbatim>\<open>String\<close> rendering for the \<^verbatim>\<open>catch\<close>), or anything else (with its
  \<^verbatim>\<open>String\<close> rendering).
\<close>

datatype console_arg =
    ArgString string
  | ArgError Error
  | ArgObject "string outcome" string
  | ArgOther string

record CapturedMessage =
  cm_level :: level
  cm_message :: string
  cm_args :: "console_arg list"
  cm_timestamp :: string
  cm_stack :: "string option"

record ConsoleInterceptorConfig =
  captureErrors :: bool
  captureWarnings :: bool
  captureInfo :: bool
  captureDebug :: bool
  filterPatterns :: "pattern list option"
  maxCapturedMessages :: nat
  preserveOriginal :: bool

text \<open>
  The state of \<^verbatim>\<open>ConsoleInterceptorClass\<close>. A listener is known by a number; what
  the listeners were called with is the third component of the result of
  \<open>processMessage\<close>.
\<close>

record ConsoleInterceptorClass =
  isIntercepting :: bool
  capturedMessages :: "CapturedMessage list"
  config :: ConsoleInterceptorConfig
  listeners :: "nat list"

fun stringify_arg :: "console_arg \<Rightarrow> string" where
  "stringify_arg (ArgString s) = s"
| "stringify_arg (ArgError e) = message e"
| "stringify_arg (ArgObject (Returns json) fallback) = json"
| "stringify_arg (ArgObject Throws fallback) = fallback"
| "stringify_arg (ArgOther s) = s"

text \<open>\<^verbatim>\<open>Array.prototype.join(' ')\<close>.\<close>

fun join_space :: "string list \<Rightarrow> string" where
  "join_space [] = []"
| "join_space [s] = s"
| "join_space (s # t # ts) = s @ '' '' @ join_space (t # ts)"

definition shouldFilterMessage :: "ConsoleInterceptorConfig \<Rightarrow> string \<Rightarrow> bool" where
  "shouldFilterMessage cfg msg =
     (case filterPatterns cfg of
        None \<Rightarrow> False
      | Some ps \<Rightarrow> list_ex (\<lambda>p. case p of RegExp test \<Rightarrow> test msg | Literal t \<Rightarrow> str_includes msg t) ps)"

fun level_name :: "level \<Rightarrow> string" where
  "level_name lvl_error = ''error''"
| "level_name lvl_warn = ''warn''"
| "level_name lvl_info = ''info''"
| "level_name lvl_debug = ''debug''"
| "level_name lvl_log = ''log''"

fun the_Error :: "console_arg \<Rightarrow> Error option" where
  "the_Error (ArgError e) = Some e"
| "the_Error a = None"

text \<open>
  \<^verbatim>\<open>reportToErrorMonitor\<close>: the first \<^verbatim>\<open>Error\<close> among the arguments, or a new one
  made of the message, with the captured stack when that is not empty;
  \<open>new_stack\<close> is the stack the host gives a new \<^verbatim>\<open>Error\<close>.
\<close>

definition reportToErrorMonitor ::
  "host \<Rightarrow> string option \<Rightarrow> CapturedMessage \<Rightarrow> console_arg list \<Rightarrow> ErrorMonitorClass \<Rightarrow> ErrorMonitorClass" where
  "reportToErrorMonitor h new_stack capturedMessage args em =
     (let err = (case List.map_filter the_Error args of
                   e # es \<Rightarrow> e
                 | [] \<Rightarrow> \<lparr> message = cm_message capturedMessage,
                            stack = (case cm_stack capturedMessage of
                                       None \<Rightarrow> new_stack
                                     | Some s \<Rightarrow> if s = [] then new_stack else Some s) \<rparr>)
      in reportError h
           \<lparr> rtype = console_error, error = err, errorInfo = None,
             timestamp = cm_timestamp capturedMessage,
             report_context = Some [(''level'', level_name (cm_level capturedMessage)),
                                    (''args'', join_space (map stringify_arg args)),
                                    (''originalMessage'', cm_message capturedMessage)],
             userAgent = None, url = None, userId = None, sessionId = None \<rparr> em)"

text \<open>
  \<^verbatim>\<open>processMessage\<close>, on the interceptor and the error monitor it reports to. The
  result is the two states and the listener calls made, in order.
\<close>

definition processMessage ::
  "host \<Rightarrow> int \<Rightarrow> string option \<Rightarrow> level \<Rightarrow> console_arg list \<Rightarrow>
     ConsoleInterceptorClass \<times> ErrorMonitorClass \<Rightarrow>
     ConsoleInterceptorClass \<times> ErrorMonitorClass \<times> (nat \<times> CapturedMessage) list" where
  "processMessage h now new_stack lvl args s =
     (case s of (ci, em) \<Rightarrow>
       (let msg = join_space (map stringify_arg args) in
        if shouldFilterMessage (config ci) msg then (ci, em, [])
        else
          (let stk = (if lvl = lvl_error then new_stack else None);
               capturedMessage = \<lparr> cm_level = lvl, cm_message = msg, cm_args = args,
                                   cm_timestamp = toISOString now, cm_stack = stk \<rparr>;
               cs = capturedMessage # capturedMessages ci;
               ci' = ci\<lparr> capturedMessages :=
                           (if length cs > maxCapturedMessages (config ci)
                            then take (maxCapturedMessages (config ci)) cs else cs) \<rparr>;
               calls = map (\<lambda>l. (l, capturedMessage)) (listeners ci);
               em' = (if lvl = lvl_error
                      then reportToErrorMonitor h new_stack capturedMessage args em else em)
           in (ci', em', calls))))"

section \<open>ErrorBoundary: the recovery of a boundary\<close>

record State =
  hasError :: bool
  st_error :: "Error option"
  st_errorInfo :: "string option"
  isRecovering :: bool
  recoveryAttempts :: nat
  autoFixApplied :: bool

definition maxRecoveryAttempts :: nat where
  "maxRecoveryAttempts = 3"

definition initial_State :: State where
  "initial_State = \<lparr> hasError = False, st_error = None, st_errorInfo = None,
                     isRecovering = False, recoveryAttempts = 0, autoFixApplied = False \<rparr>"

definition getDerivedStateFromError :: "Error \<Rightarrow> State \<Rightarrow> State" where
  "getDerivedStateFromError err s = s\<lparr> hasError := True, st_error := Some err \<rparr>"

text \<open>
  \<^verbatim>\<open>attemptAutoRecovery\<close>, with what the registry did: \<open>None\<close> when
  \<^verbatim>\<open>findFix\<close> found no rule, \<open>Some b\<close> when \<^verbatim>\<open>applyFix\<close> returned \<open>b\<close>. The
  result is the state and the delay of the timer that \<^verbatim>\<open>scheduleRecovery\<close> sets,
  if it is called.
\<close>

definition attemptAutoRecovery :: "bool option \<Rightarrow> State \<Rightarrow> State \<times> nat option" where
  "attemptAutoRecovery fixed s =
     (if recoveryAttempts s \<ge> maxRecoveryAttempts then (s, None)
      else
        (let s1 = s\<lparr> isRecovering := True \<rparr>;
             delay = 2000 + recoveryAttempts s1 * 1000
         in if fixed = Some True then (s1\<lparr> autoFixApplied := True \<rparr>, Some delay)
            else (s1, Some delay)))"

text \<open>
  \<^verbatim>\<open>componentDidCatch\<close>, as far as the state of the boundary goes (the report to
  the error monitor is \<open>reportError\<close> above).
\<close>

definition componentDidCatch :: "Error \<Rightarrow> string \<Rightarrow> bool option \<Rightarrow> State \<Rightarrow> State \<times> nat option" where
  "componentDidCatch err info fixed s =
     attemptAutoRecovery fixed (s\<lparr> st_error := Some err, st_errorInfo := Some info \<rparr>)"

text \<open>The callback of the timer that \<^verbatim>\<open>scheduleRecovery\<close> sets.\<close>

definition recoveryTimer :: "State \<Rightarrow> State" where
  "recoveryTimer prevState =
     prevState\<lparr> hasError := False, st_error := None, st_errorInfo := None,
                isRecovering := False, recoveryAttempts := recoveryAttempts prevState + 1 \<rparr>"

definition handleManualRetry :: "State \<Rightarrow> State" where
  "handleManualRetry s =
     s\<lparr> hasError := False, st_error := None, st_errorInfo := None,
        isRecovering := False, autoFixApplied := False \<rparr>"

text \<open>
  One failure of the children of the boundary: React derives the state, then calls
  \<^verbatim>\<open>componentDidCatch\<close>; the timer, when one was set, fires before the next
  failure.
\<close>

definition failure :: "Error \<Rightarrow> string \<Rightarrow> bool option \<Rightarrow> State \<Rightarrow> State" where
  "failure err info fixed s =
     (case componentDidCatch err info fixed (getDerivedStateFromError err s) of
        (s', Some delay) \<Rightarrow> recoveryTimer s'
      | (s', None) \<Rightarrow> s')"

text \<open>
  \<^verbatim>\<open>render\<close> shows the children when \<^verbatim>\<open>hasError\<close> is false and the error
  display otherwise. The boundary is stable when it shows its children, and exhausted
  when it shows the error display with no attempt left.
\<close>

definition stable :: "State \<Rightarrow> bool" where
  "stable s = (\<not> hasError s)"

definition exhausted :: "State \<Rightarrow> bool" where
  "exhausted s = (hasError s \<and> recoveryAttempts s \<ge> maxRecoveryAttempts)"

section \<open>Concrete inputs\<close>

text \<open>The clock of the examples: 2024-01-02T12:00:00.000Z.\<close>

definition now0 :: int where
  "now0 = 1704196800000"

definition event_at :: "string \<Rightarrow> ErrorReport" where
  "event_at t = \<lparr> rtype = runtime_error, error = \<lparr> message = ''boom'', stack = None \<rparr>,
                  errorInfo = None, timestamp = t, report_context = None,
                  userAgent = None, url = None, userId = None, sessionId = None \<rparr>"

definition new_monitor :: ErrorMonitorClass where
  "new_monitor = \<lparr> errors = [], this_sessionId = ''session_1'' \<rparr>"

text \<open>A report that already carries a session id, a user agent and a location.\<close>

definition stamped_report :: ErrorReport where
  "stamped_report = (event_at ''2024-01-02T11:59:00.000Z'')
     \<lparr> userAgent := Some ''agent-A'', url := Some ''http://a/'', sessionId := Some ''session_0'' \<rparr>"

text \<open>A host without \<^verbatim>\<open>navigator\<close> and \<^verbatim>\<open>window\<close> (server-side rendering).\<close>

definition server_host :: host where
  "server_host = \<lparr> navigator_userAgent = None, window_location_href = None \<rparr>"

text \<open>A ledger of eleven failures, each one minute old at \<open>now0\<close>.\<close>

definition eleven_recent :: ErrorMonitorClass where
  "eleven_recent = \<lparr> errors = replicate 11 (event_at (toISOString (now0 - 60 * 1000))),
                      this_sessionId = ''session_1'' \<rparr>"

text \<open>Rules, errors and registries.\<close>

definition error_of :: "string \<Rightarrow> Error" where
  "error_of m = \<lparr> message = m, stack = None \<rparr>"

definition network_error :: Error where
  "network_error = \<lparr> message = ''Network Error: fetch failed'', stack = None \<rparr>"

text \<open>
  The matcher of a regular expression that is an alternation of literal texts, such as
  \<^verbatim>\<open>/CORS|Cross-Origin Request Blocked|blocked by CORS policy/\<close>: the leftmost
  position at or after the start where an alternative occurs, and there the first
  alternative that does; the result is the end of the occurrence.
\<close>

fun match_alternative :: "string list \<Rightarrow> string \<Rightarrow> nat option" where
  "match_alternative [] s = None"
| "match_alternative (a # alts) s =
     (if startsWith s a then Some (length a) else match_alternative alts s)"

fun scan_alternatives :: "string list \<Rightarrow> string \<Rightarrow> nat \<Rightarrow> nat option" where
  "scan_alternatives alts [] pos =
     (case match_alternative alts [] of None \<Rightarrow> None | Some n \<Rightarrow> Some (pos + n))"
| "scan_alternatives alts (c # s) pos =
     (case match_alternative alts (c # s) of
        None \<Rightarrow> scan_alternatives alts s (Suc pos)
      | Some n \<Rightarrow> Some (pos + n))"

definition literal_regexp :: "string list \<Rightarrow> RegExpObject" where
  "literal_regexp alts =
     \<lparr> re_exec = (\<lambda>s i. scan_alternatives alts (drop i s) i),
       re_global_or_sticky = False, lastIndex = 0 \<rparr>"

definition rule_low :: ErrorFix where
  "rule_low = \<lparr> fix_id = Some ''low'', name = Some ''Low'', description = ''advice'',
       errorPattern = Some (StringPattern ''Network''), errorTypes = [''runtime_error''],
       fixFunction = Some (\<lambda>e. Returns False), conditions = None, priority = 1,
       category = runtime, successRate = Some 0, lastUsed = Some ''2024-01-01T00:00:00.000Z'',
       timesUsed = Some 0 \<rparr>"

text \<open>A rule with the pattern \<^verbatim>\<open>/fetch|XHR/\<close> and one condition.\<close>

definition rule_high :: ErrorFix where
  "rule_high = \<lparr> fix_id = Some ''high'', name = Some ''High'', description = ''retry'',
       errorPattern = Some (RegExpPattern (literal_regexp [''fetch'', ''XHR''])),
       errorTypes = [''runtime_error''],
       fixFunction = Some (\<lambda>e. Returns True), conditions = Some [Returns True], priority = 5,
       category = runtime, successRate = Some 0, lastUsed = Some ''2024-01-01T00:00:00.000Z'',
       timesUsed = Some 0 \<rparr>"

text \<open>A rule of the same priority as \<open>rule_high\<close>, for registration after it.\<close>

definition rule_tie :: ErrorFix where
  "rule_tie = \<lparr> fix_id = Some ''tie'', name = Some ''Tie'', description = ''second'',
       errorPattern = Some (StringPattern ''Error''), errorTypes = [''runtime_error''],
       fixFunction = Some (\<lambda>e. Returns False), conditions = None, priority = 5,
       category = runtime, successRate = Some 0, lastUsed = Some ''2024-01-01T00:00:00.000Z'',
       timesUsed = Some 0 \<rparr>"

text \<open>A rule whose pattern does not occur in the network error.\<close>

definition rule_miss :: ErrorFix where
  "rule_miss = \<lparr> fix_id = Some ''miss'', name = Some ''Miss'', description = ''elsewhere'',
       errorPattern = Some (RegExpPattern (literal_regexp [''CORS'', ''blocked by CORS policy''])),
       errorTypes = [''runtime_error''],
       fixFunction = Some (\<lambda>e. Returns False), conditions = None, priority = 7,
       category = configuration, successRate = Some 0,
       lastUsed = Some ''2024-01-01T00:00:00.000Z'', timesUsed = Some 0 \<rparr>"

text \<open>A rule whose only condition returns false.\<close>

definition rule_off :: ErrorFix where
  "rule_off = \<lparr> fix_id = Some ''off'', name = Some ''Off'', description = ''disabled'',
       errorPattern = Some (StringPattern ''Network''), errorTypes = [''runtime_error''],
       fixFunction = Some (\<lambda>e. Returns True), conditions = Some [Returns False], priority = 8,
       category = runtime, successRate = Some 0, lastUsed = Some ''2024-01-01T00:00:00.000Z'',
       timesUsed = Some 0 \<rparr>"

text \<open>The rule \<open>rule_high\<close> with the pattern \<^verbatim>\<open>/fetch|XHR/g\<close>.\<close>

definition rule_global :: ErrorFix where
  "rule_global = rule_high\<lparr> fix_id := Some ''global'',
     errorPattern := Some (RegExpPattern ((literal_regexp [''fetch'', ''XHR''])
                             \<lparr> re_global_or_sticky := True \<rparr>)) \<rparr>"

text \<open>A rule whose second condition throws when called.\<close>

definition rule_throwing :: ErrorFix where
  "rule_throwing = \<lparr> fix_id = Some ''throwing'', name = Some ''Throwing'',
       description = ''guarded'',
       errorPattern = Some (StringPattern ''Network''), errorTypes = [''runtime_error''],
       fixFunction = Some (\<lambda>e. Returns True), conditions = Some [Returns True, Throws],
       priority = 9,
       category = runtime, successRate = Some 0, lastUsed = Some ''2024-01-01T00:00:00.000Z'',
       timesUsed = Some 0 \<rparr>"

definition nameless_rule :: ErrorFix where
  "nameless_rule = rule_low\<lparr> fix_id := Some ''nameless'', name := None \<rparr>"

text \<open>
  A rule whose action succeeds on the error "ok", throws on the error "throw" and fails
  on every other error; its statistics are those of a rule just registered.
\<close>

definition flaky_fix :: ErrorFix where
  "flaky_fix = rule_low\<lparr> fix_id := Some ''flaky'',
     fixFunction := Some (\<lambda>e. if message e = ''throw'' then Throws
                               else Returns (message e = ''ok'')) \<rparr>"

definition new_registry :: FixRegistryClass where
  "new_registry = \<lparr> this_fixes = [], fixHistory = [] \<rparr>"

definition two_rules :: FixRegistryClass where
  "two_rules = snd (registerFix now0 rule_high (snd (registerFix now0 rule_low new_registry)))"



definition global_rules :: FixRegistryClass where
  "global_rules =
     snd (registerFix now0 rule_global (snd (registerFix now0 rule_low new_registry)))"

definition guarded_rules :: FixRegistryClass where
  "guarded_rules =
     snd (registerFix now0 rule_throwing (snd (registerFix now0 rule_low new_registry)))"

text \<open>An interceptor that filters a pattern and the literal text "noisy-warning".\<close>

definition noisy_interceptor :: ConsoleInterceptorClass where
  "noisy_interceptor = \<lparr> isIntercepting = True, capturedMessages = [],
     config = \<lparr> captureErrors = True, captureWarnings = True, captureInfo = False,
                captureDebug = False,
                filterPatterns = Some [RegExp (\<lambda>s. str_includes s ''React DevTools''),
                                       Literal ''noisy-warning''],
                maxCapturedMessages = 200, preserveOriginal = True \<rparr>,
     listeners = [0, 1] \<rparr>"

text \<open>
  A boundary whose children failed four times, no rule matching: three recoveries, then
  the failure that finds no attempt left.
\<close>

definition worn_out :: State where
  "worn_out = failure (error_of ''boom'') ''at App'' None
               (failure (error_of ''boom'') ''at App'' None
                 (failure (error_of ''boom'') ''at App'' None
                   (failure (error_of ''boom'') ''at App'' None initial_State)))"

section \<open>Properties of the time stamps\<close>

lemma pad2: "pad 2 n = [digit (n div 10), digit n]"
  by (simp add: numeral_2_eq_2)

lemma pad3: "pad 3 n = [digit (n div 10 div 10), digit (n div 10), digit n]"
  by (simp add: numeral_3_eq_3)

lemma pad4:
  "pad 4 n = [digit (n div 10 div 10 div 10), digit (n div 10 div 10), digit (n div 10), digit n]"
proof -
  have "(4::nat) = Suc (Suc (Suc (Suc 0)))" by simp
  then show ?thesis by (simp only: pad.simps append.simps)
qed

lemmas toISOString_unfold =
  toISOString_def date_string_def time_string_def YearFromDay_def month_lengths_def
  InLeapYear_def DayFromYear_def year_string_def Let_def pad2 pad3 pad4 digit_def

lemma iso_epoch: "toISOString 0 = ''1970-01-01T00:00:00.000Z''"
  unfolding toISOString_unfold by (simp add: year_search.simps DayFromYear_def)

lemma iso_before_epoch: "toISOString (- 1) = ''1969-12-31T23:59:59.999Z''"
  unfolding toISOString_unfold by (simp add: year_search.simps DayFromYear_def)

lemma iso_leap_day: "toISOString 1709164800000 = ''2024-02-29T00:00:00.000Z''"
  unfolding toISOString_unfold by (simp add: year_search.simps DayFromYear_def)

lemma iso_maxInstant: "toISOString maxInstant = ''9999-12-31T23:59:59.999Z''"
  unfolding toISOString_unfold maxInstant_def by (simp add: year_search.simps DayFromYear_def)

lemma iso_noon: "toISOString 1704196800000 = ''2024-01-02T12:00:00.000Z''"
  unfolding toISOString_unfold by (simp add: year_search.simps DayFromYear_def)

lemma iso_24h: "toISOString (1704196800000 - 24 * 60 * 60 * 1000) = ''2024-01-01T12:00:00.000Z''"
  unfolding toISOString_unfold by (simp add: year_search.simps DayFromYear_def)

lemma iso_25h: "toISOString (1704196800000 - 25 * 60 * 60 * 1000) = ''2024-01-01T11:00:00.000Z''"
  unfolding toISOString_unfold by (simp add: year_search.simps DayFromYear_def)

lemma iso_1h: "toISOString (1704196800000 - 1 * 60 * 60 * 1000) = ''2024-01-02T11:00:00.000Z''"
  unfolding toISOString_unfold by (simp add: year_search.simps DayFromYear_def)

lemma iso_5min: "toISOString (1704196800000 - 5 * 60 * 1000) = ''2024-01-02T11:55:00.000Z''"
  unfolding toISOString_unfold by (simp add: year_search.simps DayFromYear_def)

lemma iso_1min: "toISOString (1704196800000 - 60 * 1000) = ''2024-01-02T11:59:00.000Z''"
  unfolding toISOString_unfold by (simp add: year_search.simps DayFromYear_def)

subsection \<open>The years\<close>

lemma div_step:
  fixes k n :: int
  assumes "0 < n"
  shows "(k + 1) div n = k div n + (if (k + 1) mod n = 0 then 1 else 0)"
proof -
  define q r where "q = k div n" and "r = k mod n"
  have k: "k = n * q + r" by (simp add: q_def r_def)
  have r: "0 \<le> r" "r < n" using assms by (simp_all add: r_def)
  show ?thesis
  proof (cases "r + 1 = n")
    case True
    then have e: "k + 1 = n * (q + 1) + 0" using k by (simp add: algebra_simps)
    have "(k + 1) div n = q + 1" by (rule int_div_pos_eq [OF e]) (use assms in simp_all)
    moreover have "(k + 1) mod n = 0" by (rule int_mod_pos_eq [OF e]) (use assms in simp_all)
    ultimately show ?thesis by (simp add: q_def)
  next
    case False
    then have b: "0 \<le> r + 1" "r + 1 < n" using r by simp_all
    have e: "k + 1 = n * q + (r + 1)" using k by simp
    have "(k + 1) div n = q" by (rule int_div_pos_eq [OF e b])
    moreover have "(k + 1) mod n = r + 1" by (rule int_mod_pos_eq [OF e b])
    ultimately show ?thesis using r by (simp add: q_def)
  qed
qed

lemma mod_shift: "((y::int) - c * n) mod n = y mod n"
proof -
  have "y - c * n = y + (- c) * n" by simp
  then show ?thesis by (simp only: mod_mult_self1)
qed

lemma DayFromYear_Suc: "DayFromYear (y + 1) = DayFromYear y + (if InLeapYear y then 366 else 365)"
proof -
  define l4 l100 l400 :: int where "l4 = (if y mod 4 = 0 then 1 else 0)"
    and "l100 = (if y mod 100 = 0 then 1 else 0)" and "l400 = (if y mod 400 = 0 then 1 else 0)"
  have a: "(y - 1968) div 4 = (y - 1969) div 4 + l4"
    using div_step [of 4 "y - 1969"] mod_shift [of y 492 4] by (simp add: l4_def)
  have b: "(y - 1900) div 100 = (y - 1901) div 100 + l100"
    using div_step [of 100 "y - 1901"] mod_shift [of y 19 100] by (simp add: l100_def)
  have c: "(y - 1600) div 400 = (y - 1601) div 400 + l400"
    using div_step [of 400 "y - 1601"] mod_shift [of y 4 400] by (simp add: l400_def)
  have d: "y mod 400 = 0 \<Longrightarrow> y mod 100 = 0" by auto
  have e: "y mod 100 = 0 \<Longrightarrow> y mod 4 = 0" by auto
  have "DayFromYear (y + 1) =
      365 * (y - 1969) + (y - 1968) div 4 - (y - 1900) div 100 + (y - 1600) div 400"
    unfolding DayFromYear_def by (simp add: algebra_simps)
  then have s: "DayFromYear (y + 1) = DayFromYear y + 365 + (l4 - l100 + l400)"
    unfolding a b c DayFromYear_def by (simp only: algebra_simps)
  have "l4 - l100 + l400 = (if InLeapYear y then 1 else 0)"
  proof (cases "y mod 4 = 0")
    case False
    with d e show ?thesis unfolding l4_def l100_def l400_def InLeapYear_def by auto
  next
    case True
    show ?thesis
    proof (cases "y mod 100 = 0")
      case False
      with True d show ?thesis unfolding l4_def l100_def l400_def InLeapYear_def by auto
    next
      case h: True
      with True show ?thesis unfolding l4_def l100_def l400_def InLeapYear_def by simp
    qed
  qed
  with s show ?thesis by simp
qed

lemma DayFromYear_less: "DayFromYear y < DayFromYear (y + 1)"
  by (simp add: DayFromYear_Suc)

lemma DayFromYear_strict_mono: "y < y' \<Longrightarrow> DayFromYear y < DayFromYear y'"
proof (induction y' rule: int_gr_induct)
  case base
  show ?case by (rule DayFromYear_less)
next
  case (step i)
  then show ?case using DayFromYear_less [of i] by simp
qed

lemma DayFromYear_le_iff: "DayFromYear y \<le> DayFromYear y' \<longleftrightarrow> y \<le> y'"
  using DayFromYear_strict_mono [of y y'] DayFromYear_strict_mono [of y' y]
  by (cases y y' rule: linorder_cases) auto

lemma year_search_spec:
  "DayFromYear y \<le> d \<Longrightarrow>
     DayFromYear (year_search y d) \<le> d \<and> d < DayFromYear (year_search y d + 1)"
proof (induction y d rule: year_search.induct)
  case (1 y d)
  show ?case
  proof (cases "DayFromYear (y + 1) \<le> d")
    case True
    then show ?thesis using "1.IH" by (simp add: year_search.simps [of y d])
  next
    case False
    then show ?thesis using "1.prems" by (simp add: year_search.simps [of y d])
  qed
qed

lemma DayFromYear_1970: "DayFromYear 1970 = 0"
  by (simp add: DayFromYear_def)

lemma DayFromYear_upper: "0 \<le> k \<Longrightarrow> DayFromYear (1970 + k) \<le> 366 * k"
proof (induction k rule: int_ge_induct)
  case base
  show ?case by (simp add: DayFromYear_1970)
next
  case (step i)
  have "DayFromYear (1970 + i + 1) \<le> DayFromYear (1970 + i) + 366"
    by (simp only: DayFromYear_Suc split: if_splits) simp
  then show ?case using step.IH by (simp add: algebra_simps)
qed

lemma DayFromYear_lower: "k \<le> 0 \<Longrightarrow> DayFromYear (1970 + k) \<le> 365 * k"
proof (induction k rule: int_le_induct)
  case base
  show ?case by (simp add: DayFromYear_1970)
next
  case (step i)
  have "DayFromYear (1970 + (i - 1) + 1) \<ge> DayFromYear (1970 + (i - 1)) + 365"
    by (simp only: DayFromYear_Suc split: if_splits) simp
  then show ?case using step.IH by (simp add: algebra_simps)
qed

lemma year_estimate: "DayFromYear (1970 + (if 0 \<le> d then d div 366 else d div 365)) \<le> d"
proof (cases "0 \<le> d")
  case True
  then have "0 \<le> d div 366" by simp
  then have "DayFromYear (1970 + d div 366) \<le> 366 * (d div 366)" by (rule DayFromYear_upper)
  also have "\<dots> \<le> d"
    using mult_div_mod_eq [of 366 d] pos_mod_sign [of 366 d] by linarith
  finally show ?thesis using True by simp
next
  case False
  then have "d div 365 \<le> 0" by (simp add: div_nonpos_pos_le0)
  then have "DayFromYear (1970 + d div 365) \<le> 365 * (d div 365)" by (rule DayFromYear_lower)
  also have "\<dots> \<le> d"
    using mult_div_mod_eq [of 365 d] pos_mod_sign [of 365 d] by linarith
  finally show ?thesis using False by simp
qed

lemma YearFromDay_bounds:
  "DayFromYear (YearFromDay d) \<le> d \<and> d < DayFromYear (YearFromDay d + 1)"
  unfolding YearFromDay_def by (rule year_search_spec) (rule year_estimate)

lemma YearFromDay_mono: "d \<le> d' \<Longrightarrow> YearFromDay d \<le> YearFromDay d'"
proof (rule ccontr)
  assume le: "d \<le> d'" and "\<not> YearFromDay d \<le> YearFromDay d'"
  then have "YearFromDay d' + 1 \<le> YearFromDay d" by simp
  then have "DayFromYear (YearFromDay d' + 1) \<le> DayFromYear (YearFromDay d)"
    by (simp only: DayFromYear_le_iff)
  with YearFromDay_bounds [of d] YearFromDay_bounds [of d'] le show False by linarith
qed

lemma YearFromDay_eq: "DayFromYear y \<le> d \<Longrightarrow> d < DayFromYear (y + 1) \<Longrightarrow> YearFromDay d = y"
proof -
  assume a: "DayFromYear y \<le> d" "d < DayFromYear (y + 1)"
  have "DayFromYear y < DayFromYear (YearFromDay d + 1)"
    using a YearFromDay_bounds [of d] by linarith
  then have "y < YearFromDay d + 1"
    using DayFromYear_le_iff [of "YearFromDay d + 1" y] by linarith
  moreover have "DayFromYear (YearFromDay d) < DayFromYear (y + 1)"
    using a YearFromDay_bounds [of d] by linarith
  then have "YearFromDay d < y + 1"
    using DayFromYear_le_iff [of "y + 1" "YearFromDay d"] by linarith
  ultimately show ?thesis by simp
qed

lemma DayFromYear_10000: "DayFromYear 10000 = 2932897"
  by (simp add: DayFromYear_def)

lemma YearFromDay_range:
  assumes "0 \<le> d" "d < 2932897"
  shows "1970 \<le> YearFromDay d \<and> YearFromDay d \<le> 9999"
proof -
  have "DayFromYear 1970 < DayFromYear (YearFromDay d + 1)"
    using assms YearFromDay_bounds [of d] by (simp add: DayFromYear_1970)
  then have "1970 < YearFromDay d + 1"
    using DayFromYear_le_iff [of "YearFromDay d + 1" 1970] by linarith
  moreover have "DayFromYear (YearFromDay d) < DayFromYear 10000"
    using assms YearFromDay_bounds [of d] by (simp add: DayFromYear_10000)
  then have "YearFromDay d < 10000"
    using DayFromYear_le_iff [of 10000 "YearFromDay d"] by linarith
  ultimately show ?thesis by simp
qed

subsection \<open>The months and the digits\<close>

lemma month_walk_fst_ge: "m \<le> fst (month_walk dw lens m)"
proof (induction lens arbitrary: dw m)
  case Nil
  show ?case by simp
next
  case (Cons len lens)
  show ?case using Cons.IH [where dw = "dw - len" and m = "Suc m"] by auto
qed

lemma month_walk_bound:
  "dw < sum_list lens \<Longrightarrow> list_all (\<lambda>len. len \<le> B) lens \<Longrightarrow>
   fst (month_walk dw lens m) < m + length lens \<and> snd (month_walk dw lens m) < B"
proof (induction lens arbitrary: dw m)
  case Nil
  then show ?case by simp
next
  case (Cons len lens)
  show ?case
  proof (cases "dw < len")
    case True
    with Cons.prems show ?thesis by simp
  next
    case False
    with Cons.prems have "dw - len < sum_list lens" "list_all (\<lambda>len. len \<le> B) lens" by simp_all
    from Cons.IH [OF this, where m = "Suc m"] False show ?thesis by simp
  qed
qed

lemma month_walk_mono:
  "dw < dw' \<Longrightarrow>
   fst (month_walk dw lens m) < fst (month_walk dw' lens m)
   \<or> (fst (month_walk dw lens m) = fst (month_walk dw' lens m)
      \<and> snd (month_walk dw lens m) < snd (month_walk dw' lens m))"
proof (induction lens arbitrary: dw dw' m)
  case Nil
  then show ?case by simp
next
  case (Cons len lens)
  show ?case
  proof (cases "dw' < len")
    case True
    with Cons.prems show ?thesis by simp
  next
    case far: False
    show ?thesis
    proof (cases "dw < len")
      case True
      with far month_walk_fst_ge [of "Suc m" "dw' - len" lens] show ?thesis by simp
    next
      case False
      with far Cons.prems have "dw - len < dw' - len" by simp
      from Cons.IH [OF this, where m = "Suc m"] False far show ?thesis by simp
    qed
  qed
qed

lemma length_pad: "length (pad w n) = w"
  by (induction w arbitrary: n) simp_all

lemma digit_less: "a mod 10 < b mod 10 \<Longrightarrow> digit a < digit b"
proof -
  assume l: "a mod 10 < b mod 10"
  have "\<forall>j<10. \<forall>i<j. (''0123456789'') ! i < (''0123456789'') ! j"
    by (simp add: numeral_eq_Suc All_less_Suc)
  moreover have "b mod 10 < 10" by simp
  ultimately show ?thesis using l unfolding digit_def by blast
qed

lemma append_less_append:
  "length a = length b \<Longrightarrow> (a @ x < b @ y \<longleftrightarrow> a < b \<or> a = b \<and> x < y)"
  for a b x y :: string
  by (induction a b rule: list_induct2) auto

lemma pad_less: "n < k \<Longrightarrow> k < 10 ^ w \<Longrightarrow> pad w n < pad w k"
proof (induction w arbitrary: n k)
  case 0
  then show ?case by simp
next
  case (Suc w)
  have le: "n div 10 \<le> k div 10" using Suc.prems(1) by (simp add: div_le_mono)
  have b: "k div 10 < 10 ^ w" using Suc.prems(2) by (simp add: less_mult_imp_div_less mult.commute)
  have len: "length (pad w (n div 10)) = length (pad w (k div 10))" by (simp add: length_pad)
  show ?case
  proof (cases "n div 10 < k div 10")
    case True
    then have "pad w (n div 10) < pad w (k div 10)" using b by (rule Suc.IH)
    then show ?thesis by (simp add: append_less_append [OF len])
  next
    case False
    with le have e: "n div 10 = k div 10" by simp
    have "n mod 10 < k mod 10"
      using Suc.prems(1) e by (metis div_mult_mod_eq nat_add_left_cancel_less)
    then have "digit n < digit k" by (rule digit_less)
    then show ?thesis by (simp add: e append_less_append)
  qed
qed

subsection \<open>The order of the time stamps is the order of the instants\<close>

lemma less_field: "length a = length b \<Longrightarrow> a < b \<Longrightarrow> a @ x < b @ y" for a b x y :: string
  by (simp add: append_less_append)

lemma less_rest: "x < y \<Longrightarrow> a @ x < a @ y" for a x y :: string
  by (simp add: append_less_append)

lemma time_string_less:
  assumes "t1 < t2" "t2 < 86400000"
  shows "time_string t1 < time_string t2"
proof -
  define u1 u2 where "u1 = t1 div 1000" and "u2 = t2 div 1000"
  define q1 q2 where "q1 = u1 div 60" and "q2 = u2 div 60"
  have h: "t1 div 3600000 = q1 div 60" "t2 div 3600000 = q2 div 60"
    and m: "t1 div 60000 = q1" "t2 div 60000 = q2"
    unfolding q1_def q2_def u1_def u2_def by (simp_all add: div_mult2_eq)
  have ts: "time_string t1 = pad 2 (q1 div 60) @ CHR '':'' # pad 2 (q1 mod 60) @ CHR '':'' #
        pad 2 (u1 mod 60) @ CHR ''.'' # pad 3 (t1 mod 1000) @ ''Z''"
    "time_string t2 = pad 2 (q2 div 60) @ CHR '':'' # pad 2 (q2 mod 60) @ CHR '':'' #
        pad 2 (u2 mod 60) @ CHR ''.'' # pad 3 (t2 mod 1000) @ ''Z''"
    unfolding time_string_def h m by (simp_all add: u1_def u2_def)
  have bh: "q2 div 60 < 10 ^ 2"
    using assms(2) h(2) by (simp add: less_mult_imp_div_less)
  have b60: "\<And>x::nat. x mod 60 < 10 ^ 2" by (simp add: less_trans [OF mod_less_divisor])
  have b1000: "t2 mod 1000 < 10 ^ 3" by simp
  have ule: "u1 \<le> u2" unfolding u1_def u2_def using assms(1) by (simp add: div_le_mono)
  have qle: "q1 \<le> q2" unfolding q1_def q2_def using ule by (simp add: div_le_mono)
  have hle: "q1 div 60 \<le> q2 div 60" using qle by (simp add: div_le_mono)
  have l2: "\<And>a b. length (pad 2 a) = length (pad 2 b)" by (simp add: length_pad)
  show ?thesis
  proof (cases "q1 div 60 < q2 div 60")
    case True
    then have "pad 2 (q1 div 60) < pad 2 (q2 div 60)" using bh by (rule pad_less)
    then show ?thesis unfolding ts by (rule less_field [OF l2])
  next
    case False
    with hle have eh: "q1 div 60 = q2 div 60" by simp
    show ?thesis
    proof (cases "q1 = q2")
      case False
      with qle have "q1 < q2" by simp
      then have "q1 mod 60 < q2 mod 60"
        using eh by (metis div_mult_mod_eq nat_add_left_cancel_less)
      then have "pad 2 (q1 mod 60) < pad 2 (q2 mod 60)" using b60 by (rule pad_less)
      then have "pad 2 (q1 mod 60) @ CHR '':'' # pad 2 (u1 mod 60) @ CHR ''.'' # pad 3 (t1 mod 1000) @ ''Z''
          < pad 2 (q2 mod 60) @ CHR '':'' # pad 2 (u2 mod 60) @ CHR ''.'' # pad 3 (t2 mod 1000) @ ''Z''"
        by (rule less_field [OF l2])
      then show ?thesis unfolding ts eh by (simp add: append_less_append)
    next
      case eq: True
      show ?thesis
      proof (cases "u1 = u2")
        case False
        with ule have "u1 < u2" by simp
        then have "u1 mod 60 < u2 mod 60"
          using eq unfolding q1_def q2_def by (metis div_mult_mod_eq nat_add_left_cancel_less)
        then have "pad 2 (u1 mod 60) < pad 2 (u2 mod 60)" using b60 by (rule pad_less)
        then have "pad 2 (u1 mod 60) @ CHR ''.'' # pad 3 (t1 mod 1000) @ ''Z''
            < pad 2 (u2 mod 60) @ CHR ''.'' # pad 3 (t2 mod 1000) @ ''Z''"
          by (rule less_field [OF l2])
        then show ?thesis unfolding ts eq by (simp add: append_less_append)
      next
        case eu: True
        have "t1 mod 1000 < t2 mod 1000"
          using assms(1) eu unfolding u1_def u2_def
          by (metis div_mult_mod_eq nat_add_left_cancel_less)
        then have "pad 3 (t1 mod 1000) < pad 3 (t2 mod 1000)" using b1000 by (rule pad_less)
        then have "pad 3 (t1 mod 1000) @ ''Z'' < pad 3 (t2 mod 1000) @ ''Z''"
          by (rule less_field [rotated]) (simp add: length_pad)
        then show ?thesis unfolding ts eq eu by (simp add: append_less_append)
      qed
    qed
  qed
qed

lemma sum_month_lengths: "sum_list (month_lengths y) = (if InLeapYear y then 366 else 365)"
  by (simp add: month_lengths_def)

lemma month_lengths_le: "list_all (\<lambda>len. len \<le> 31) (month_lengths y)"
  by (simp add: month_lengths_def)

lemma DayWithinYear_less:
  "nat (d - DayFromYear (YearFromDay d)) < sum_list (month_lengths (YearFromDay d))"
proof -
  have "d - DayFromYear (YearFromDay d) < (if InLeapYear (YearFromDay d) then 366 else 365)"
    using YearFromDay_bounds [of d] DayFromYear_Suc [of "YearFromDay d"] by linarith
  then show ?thesis by (simp add: sum_month_lengths split: if_splits)
qed

lemma date_string_eq:
  "date_string d =
     year_string (YearFromDay d) @ CHR ''-'' #
     pad 2 (fst (month_walk (nat (d - DayFromYear (YearFromDay d))) (month_lengths (YearFromDay d)) 0) + 1)
     @ CHR ''-'' #
     pad 2 (snd (month_walk (nat (d - DayFromYear (YearFromDay d))) (month_lengths (YearFromDay d)) 0) + 1)"
  unfolding date_string_def Let_def by (simp add: case_prod_beta)

lemma year_string_4: "0 \<le> y \<Longrightarrow> y \<le> 9999 \<Longrightarrow> year_string y = pad 4 (nat y)"
  by (simp add: year_string_def)

lemma length_date_string:
  assumes "0 \<le> d" "d < 2932897"
  shows "length (date_string d) = 10"
  using YearFromDay_range [OF assms]
  by (simp add: date_string_eq year_string_4 length_pad)

lemma date_string_less:
  assumes "0 \<le> d1" "d1 < d2" "d2 < 2932897"
  shows "date_string d1 < date_string d2"
proof -
  define y1 y2 where "y1 = YearFromDay d1" and "y2 = YearFromDay d2"
  define w1 w2 where "w1 = month_walk (nat (d1 - DayFromYear y1)) (month_lengths y1) 0"
    and "w2 = month_walk (nat (d2 - DayFromYear y2)) (month_lengths y2) 0"
  have r1: "1970 \<le> y1" "y1 \<le> 9999" and r2: "1970 \<le> y2" "y2 \<le> 9999"
    using YearFromDay_range [of d1] YearFromDay_range [of d2] assms
    unfolding y1_def y2_def by simp_all
  have ds: "date_string d1 = pad 4 (nat y1) @ CHR ''-'' # pad 2 (fst w1 + 1) @ CHR ''-'' # pad 2 (snd w1 + 1)"
    "date_string d2 = pad 4 (nat y2) @ CHR ''-'' # pad 2 (fst w2 + 1) @ CHR ''-'' # pad 2 (snd w2 + 1)"
    using r1 r2 unfolding date_string_eq w1_def w2_def y1_def y2_def
    by (simp_all add: year_string_4)
  have yle: "y1 \<le> y2" unfolding y1_def y2_def using assms(2) by (simp add: YearFromDay_mono)
  have b2: "fst w2 + 1 < 10 ^ 2 \<and> snd w2 + 1 < 10 ^ 2"
    using month_walk_bound [OF DayWithinYear_less [of d2] month_lengths_le, of 0]
    unfolding w2_def y2_def by (simp add: month_lengths_def)
  have l2: "\<And>a b. length (pad 2 a) = length (pad 2 b)" by (simp add: length_pad)
  show ?thesis
  proof (cases "y1 < y2")
    case True
    then have "nat y1 < nat y2" using r1 by simp
    moreover have "nat y2 < 10 ^ 4" using r2 by simp
    ultimately have "pad 4 (nat y1) < pad 4 (nat y2)" by (rule pad_less)
    then show ?thesis unfolding ds by (rule less_field [rotated]) (simp add: length_pad)
  next
    case False
    with yle have ey: "y1 = y2" by simp
    have "DayFromYear y1 \<le> d1" using YearFromDay_bounds [of d1] unfolding y1_def by simp
    then have "nat (d1 - DayFromYear y1) < nat (d2 - DayFromYear y2)"
      using assms(2) ey by simp
    from month_walk_mono [OF this, of "month_lengths y2" 0]
    have lex: "fst w1 < fst w2 \<or> (fst w1 = fst w2 \<and> snd w1 < snd w2)"
      unfolding w1_def w2_def ey .
    show ?thesis
    proof (cases "fst w1 < fst w2")
      case True
      then have "pad 2 (fst w1 + 1) < pad 2 (fst w2 + 1)" using b2 by (simp add: pad_less)
      then have "pad 2 (fst w1 + 1) @ CHR ''-'' # pad 2 (snd w1 + 1)
          < pad 2 (fst w2 + 1) @ CHR ''-'' # pad 2 (snd w2 + 1)"
        by (rule less_field [OF l2])
      then show ?thesis unfolding ds ey by (simp add: append_less_append)
    next
      case False
      with lex have e: "fst w1 = fst w2" and l: "snd w1 < snd w2" by simp_all
      have "pad 2 (snd w1 + 1) < pad 2 (snd w2 + 1)" using l b2 by (simp add: pad_less)
      then show ?thesis unfolding ds ey e by (simp add: append_less_append)
    qed
  qed
qed

theorem toISOString_less:
  assumes "0 \<le> t1" "t1 < t2" "t2 \<le> maxInstant"
  shows "toISOString t1 < toISOString t2"
proof -
  define d1 d2 where "d1 = t1 div 86400000" and "d2 = t2 div 86400000"
  define s1 s2 where "s1 = nat (t1 mod 86400000)" and "s2 = nat (t2 mod 86400000)"
  have d1: "0 \<le> d1" unfolding d1_def using assms(1) by simp
  have "d2 \<le> maxInstant div 86400000"
    unfolding d2_def using assms(3) by (rule zdiv_mono1) simp
  then have d2: "d2 < 2932897" by (simp add: maxInstant_def)
  have dle: "d1 \<le> d2" unfolding d1_def d2_def using assms(2) by (simp add: zdiv_mono1)
  have s2: "s2 < 86400000" unfolding s2_def by simp
  have iso: "toISOString t1 = date_string d1 @ CHR ''T'' # time_string s1"
    "toISOString t2 = date_string d2 @ CHR ''T'' # time_string s2"
    unfolding toISOString_def d1_def d2_def s1_def s2_def by simp_all
  show ?thesis
  proof (cases "d1 < d2")
    case True
    have "date_string d1 < date_string d2" using d1 True d2 by (rule date_string_less)
    moreover have "length (date_string d1) = length (date_string d2)"
      using d1 d2 dle by (simp add: length_date_string)
    ultimately show ?thesis unfolding iso by (rule less_field [rotated])
  next
    case False
    with dle have e: "d1 = d2" by simp
    have "t1 = 86400000 * d1 + int s1" "t2 = 86400000 * d2 + int s2"
      unfolding d1_def d2_def s1_def s2_def by simp_all
    with assms(2) e have "s1 < s2" by simp
    then have "time_string s1 < time_string s2" using s2 by (rule time_string_less)
    then show ?thesis unfolding iso e by (simp add: append_less_append)
  qed
qed

corollary toISOString_less_iff:
  assumes "0 \<le> t1" "t1 \<le> maxInstant" "0 \<le> t2" "t2 \<le> maxInstant"
  shows "toISOString t1 < toISOString t2 \<longleftrightarrow> t1 < t2"
proof
  assume "t1 < t2"
  with assms show "toISOString t1 < toISOString t2" by (simp add: toISOString_less)
next
  assume l: "toISOString t1 < toISOString t2"
  show "t1 < t2"
  proof (rule ccontr)
    assume "\<not> t1 < t2"
    then consider "t2 < t1" | "t2 = t1" by linarith
    then show False
    proof cases
      case 1
      with assms have "toISOString t2 < toISOString t1" by (simp add: toISOString_less)
      with l show False by simp
    next
      case 2
      with l show False by simp
    qed
  qed
qed

section \<open>Properties of the failure ledger\<close>

lemma take_append_take: "take n (xs @ take n ys) = take n (xs @ ys)"
  by (simp add: min_def)

lemma reportError_errors:
  "errors (reportError h r st) = take maxStoredErrors (enhance h st r # errors st)"
  unfolding reportError_def Let_def by simp

lemma reportError_sessionId: "this_sessionId (reportError h r st) = this_sessionId st"
  unfolding reportError_def Let_def by simp

lemma enhance_reportError: "enhance h (reportError h r' st) r = enhance h st r"
  unfolding enhance_def by (simp add: reportError_sessionId)

lemma take_reportAll:
  "take maxStoredErrors (errors (reportAll h rs st)) =
   take maxStoredErrors (rev (map (enhance h st) rs) @ errors st)"
proof (induction rs arbitrary: st)
  case Nil
  show ?case by simp
next
  case (Cons r rs)
  have e: "enhance h (reportError h r st) = enhance h st"
    by (rule ext) (rule enhance_reportError)
  have "take maxStoredErrors (errors (reportAll h (r # rs) st)) =
        take maxStoredErrors
          (rev (map (enhance h st) rs) @ take maxStoredErrors (enhance h st r # errors st))"
    using Cons.IH [of "reportError h r st"] by (simp add: e reportError_errors)
  also have "\<dots> = take maxStoredErrors (rev (map (enhance h st) rs) @ enhance h st r # errors st)"
    by (rule take_append_take)
  finally show ?case by simp
qed

lemma length_reportAll:
  "length (errors (reportAll h (r # rs) st)) \<le> maxStoredErrors"
proof (induction rs arbitrary: r st)
  case Nil
  show ?case by (simp add: reportError_errors)
next
  case (Cons r' rs)
  show ?case using Cons.IH [of r' "reportError h r st"] by simp
qed

text \<open>
  C4. After every \<^verbatim>\<open>reportError\<close> call, whatever the ledger was before, the ledger
  holds at most \<open>maxStoredErrors\<close> (100) reports. After the calls for
  \<open>r # rs\<close>, made in this order on a ledger \<open>errors st\<close>, it is the first
  \<open>maxStoredErrors\<close> entries of the enhanced reports, the last reported first,
  followed by the old ledger: the most recent ones are kept, the oldest dropped. A single
  call puts its report at the front and keeps the first 99 of the old entries.
\<close>

theorem ledger_capped:
  "length (errors (reportAll h (r # rs) st)) \<le> maxStoredErrors
   \<and> errors (reportAll h (r # rs) st) =
       take maxStoredErrors (rev (map (enhance h st) (r # rs)) @ errors st)
   \<and> errors (reportError h r st) = enhance h st r # take (maxStoredErrors - 1) (errors st)"
proof -
  have len: "length (errors (reportAll h (r # rs) st)) \<le> maxStoredErrors"
    by (rule length_reportAll)
  then have "errors (reportAll h (r # rs) st) =
      take maxStoredErrors (errors (reportAll h (r # rs) st))"
    by simp
  then have seq: "errors (reportAll h (r # rs) st) =
       take maxStoredErrors (rev (map (enhance h st) (r # rs)) @ errors st)"
    by (simp only: take_reportAll)
  have one: "errors (reportError h r st) = enhance h st r # take (maxStoredErrors - 1) (errors st)"
    by (simp add: reportError_errors maxStoredErrors_def)
  from len seq one show ?thesis by blast
qed

text \<open>
  C8, as stated, fails: a report that carries the session id \<open>session_0\<close>, a user
  agent and a location, given to the monitor of session \<open>session_1\<close> on a host
  without \<^verbatim>\<open>navigator\<close> and \<^verbatim>\<open>window\<close>, is stored with the session id
  \<open>session_1\<close> and with neither user agent nor location.
\<close>

theorem reportError_overwrites_stamps:
  "sessionId stamped_report = Some ''session_0''
   \<and> userAgent stamped_report = Some ''agent-A''
   \<and> url stamped_report = Some ''http://a/''
   \<and> map sessionId (errors (reportError server_host stamped_report new_monitor)) = [Some ''session_1'']
   \<and> map userAgent (errors (reportError server_host stamped_report new_monitor)) = [None]
   \<and> map url (errors (reportError server_host stamped_report new_monitor)) = [None]"
  by (simp add: reportError_errors enhance_def stamped_report_def event_at_def new_monitor_def
      server_host_def maxStoredErrors_def)

text \<open>
  C8, amended. The stored report is the given one with \<^verbatim>\<open>sessionId\<close> set to the
  session id of the monitor, and \<^verbatim>\<open>userAgent\<close> and \<^verbatim>\<open>url\<close> set to what the host
  has (nothing where it has none), whatever the report carried in them; its type, error,
  error info, time stamp, context and user id are those of the given report.
\<close>

theorem reportError_stamps:
  "errors (reportError h r st) =
     r\<lparr> sessionId := Some (this_sessionId st), userAgent := navigator_userAgent h,
        url := window_location_href h \<rparr> # take (maxStoredErrors - 1) (errors st)
   \<and> rtype (enhance h st r) = rtype r
   \<and> error (enhance h st r) = error r
   \<and> errorInfo (enhance h st r) = errorInfo r
   \<and> timestamp (enhance h st r) = timestamp r
   \<and> report_context (enhance h st r) = report_context r
   \<and> userId (enhance h st r) = userId r"
  by (simp add: reportError_errors enhance_def maxStoredErrors_def)

text \<open>
  Among reports stamped by their reporters, a time stamp is later than the time stamp of
  the instant \<open>c\<close> exactly when its instant is later than \<open>c\<close>.
\<close>

lemma filter_stamped:
  assumes "0 \<le> c" "c \<le> maxInstant" "list_all (\<lambda>tr. 0 \<le> fst tr \<and> fst tr \<le> maxInstant) entries"
  shows "filter (\<lambda>e. toISOString c < timestamp e) (map stamped entries) =
         map stamped (filter (\<lambda>tr. c < fst tr) entries)"
  using assms(3)
proof (induction entries)
  case Nil
  show ?case by simp
next
  case (Cons tr entries)
  then have r: "0 \<le> fst tr" "fst tr \<le> maxInstant" by simp_all
  have "toISOString c < timestamp (stamped tr) \<longleftrightarrow> c < fst tr"
    using toISOString_less_iff [OF assms(1,2) r] by (simp add: stamped_def)
  then show ?case using Cons by simp
qed

text \<open>
  C7. \<^verbatim>\<open>loadPersistedErrors\<close> puts in front of the ledger exactly the entries of the
  snapshot whose time stamp is later than the time stamp of 24 hours before now, in
  their order, and drops the others. For a snapshot of reports stamped at their
  instants (between 1970 and the end of the year 9999, as is now), these are exactly
  the reports whose instant lies less than 24 hours before now. Without a readable
  snapshot the store stays as it is.
\<close>

theorem loadPersistedErrors_last_day:
  "errors (loadPersistedErrors now (Parsed (Some snapshot)) st) =
     filter (\<lambda>e. toISOString (now - 24 * 60 * 60 * 1000) < timestamp e) snapshot @ errors st
   \<and> (24 * 60 * 60 * 1000 \<le> now \<and> now \<le> maxInstant
        \<and> list_all (\<lambda>tr. 0 \<le> fst tr \<and> fst tr \<le> maxInstant) entries \<longrightarrow>
      errors (loadPersistedErrors now (Parsed (Some (map stamped entries))) st) =
        map stamped (filter (\<lambda>tr. now - 24 * 60 * 60 * 1000 < fst tr) entries) @ errors st)
   \<and> loadPersistedErrors now NoLocalStorage st = st
   \<and> loadPersistedErrors now NoItem st = st
   \<and> loadPersistedErrors now ParseFailure st = st
   \<and> loadPersistedErrors now (Parsed None) st = st"
proof -
  have a: "errors (loadPersistedErrors now (Parsed (Some xs)) st) =
     filter (\<lambda>e. toISOString (now - 24 * 60 * 60 * 1000) < timestamp e) xs @ errors st" for xs
    unfolding loadPersistedErrors_def Let_def by simp
  have b: "loadPersistedErrors now NoLocalStorage st = st" "loadPersistedErrors now NoItem st = st"
    "loadPersistedErrors now ParseFailure st = st" "loadPersistedErrors now (Parsed None) st = st"
    unfolding loadPersistedErrors_def by simp_all
  have c: "errors (loadPersistedErrors now (Parsed (Some (map stamped entries))) st) =
        map stamped (filter (\<lambda>tr. now - 24 * 60 * 60 * 1000 < fst tr) entries) @ errors st"
    if "24 * 60 * 60 * 1000 \<le> now" "now \<le> maxInstant"
      "list_all (\<lambda>tr. 0 \<le> fst tr \<and> fst tr \<le> maxInstant) entries"
  proof -
    have "0 \<le> now - 24 * 60 * 60 * 1000" "now - 24 * 60 * 60 * 1000 \<le> maxInstant"
      using that(1,2) by simp_all
    from filter_stamped [OF this that(3)] show ?thesis by (simp only: a)
  qed
  from a b c show ?thesis by blast
qed

text \<open>
  At 2024-01-02T12:00:00.000Z, a snapshot of one failure aged 25 hours and one aged 1
  hour, loaded into the empty store, leaves only the second.
\<close>

theorem loadPersistedErrors_last_day_witness:
  "24 * 60 * 60 * 1000 \<le> now0 \<and> now0 \<le> maxInstant
   \<and> list_all (\<lambda>tr. 0 \<le> fst tr \<and> fst tr \<le> maxInstant)
        [(now0 - 25 * 60 * 60 * 1000, event_at []), (now0 - 1 * 60 * 60 * 1000, event_at [])]
   \<and> map timestamp (map stamped
        [(now0 - 25 * 60 * 60 * 1000, event_at []), (now0 - 1 * 60 * 60 * 1000, event_at [])]) =
       [''2024-01-01T11:00:00.000Z'', ''2024-01-02T11:00:00.000Z'']
   \<and> errors (loadPersistedErrors now0
        (Parsed (Some (map stamped
          [(now0 - 25 * 60 * 60 * 1000, event_at []), (now0 - 1 * 60 * 60 * 1000, event_at [])])))
        new_monitor) = [stamped (now0 - 1 * 60 * 60 * 1000, event_at [])]"
proof -
  have h: "24 * 60 * 60 * 1000 \<le> now0" "now0 \<le> maxInstant"
    "list_all (\<lambda>tr. 0 \<le> fst tr \<and> fst tr \<le> maxInstant)
        [(now0 - 25 * 60 * 60 * 1000, event_at []), (now0 - 1 * 60 * 60 * 1000, event_at [])]"
    by (simp_all add: now0_def maxInstant_def)
  have t: "map timestamp (map stamped
        [(now0 - 25 * 60 * 60 * 1000, event_at []), (now0 - 1 * 60 * 60 * 1000, event_at [])]) =
       [''2024-01-01T11:00:00.000Z'', ''2024-01-02T11:00:00.000Z'']"
    unfolding now0_def stamped_def list.map fst_conv snd_conv iso_25h iso_1h by simp
  have "errors (loadPersistedErrors now0
        (Parsed (Some (map stamped
          [(now0 - 25 * 60 * 60 * 1000, event_at []), (now0 - 1 * 60 * 60 * 1000, event_at [])])))
        new_monitor) =
      map stamped (filter (\<lambda>tr. now0 - 24 * 60 * 60 * 1000 < fst tr)
          [(now0 - 25 * 60 * 60 * 1000, event_at []), (now0 - 1 * 60 * 60 * 1000, event_at [])])
        @ errors new_monitor"
    using loadPersistedErrors_last_day [of now0 "[]" new_monitor
        "[(now0 - 25 * 60 * 60 * 1000, event_at []), (now0 - 1 * 60 * 60 * 1000, event_at [])]"] h
    by blast
  then have "errors (loadPersistedErrors now0
        (Parsed (Some (map stamped
          [(now0 - 25 * 60 * 60 * 1000, event_at []), (now0 - 1 * 60 * 60 * 1000, event_at [])])))
        new_monitor) = [stamped (now0 - 1 * 60 * 60 * 1000, event_at [])]"
    by (simp add: new_monitor_def)
  with h t show ?thesis by blast
qed

section \<open>Properties of the health check\<close>

lemma getSystemHealth_count: "recentErrorCount (getSystemHealth now st) \<le> 10"
  unfolding getSystemHealth_def getErrorStats_def Let_def
  by (simp add: le_trans [OF length_filter_le])

text \<open>
  The count is taken among the ten entries that \<^verbatim>\<open>getErrorStats\<close> hands over, so
  the test \<^verbatim>\<open>recentErrors > 10\<close> never holds.
\<close>

lemma getSystemHealth_never_critical: "status (getSystemHealth now st) \<noteq> critical"
proof -
  have "length (filter (\<lambda>e. toISOString (now - 5 * 60 * 1000) < timestamp e)
          (take 10 (errors st))) \<le> 10"
    by (rule le_trans [OF length_filter_le]) simp
  then show ?thesis
    unfolding getSystemHealth_def getErrorStats_def Let_def by simp
qed

text \<open>
  Whenever more than ten reports stamped within the last five minutes make up the
  ledger, the status is \<open>warning\<close> and the count is ten.
\<close>

lemma getSystemHealth_all_recent:
  assumes "5 * 60 * 1000 \<le> now" "now \<le> maxInstant"
    and "list_all (\<lambda>tr. now - 5 * 60 * 1000 < fst tr \<and> fst tr \<le> maxInstant) entries"
    and "10 < length entries"
  shows "status (getSystemHealth now \<lparr> errors = map stamped entries, this_sessionId = sid \<rparr>) = warning
    \<and> recentErrorCount (getSystemHealth now \<lparr> errors = map stamped entries, this_sessionId = sid \<rparr>) = 10"
proof -
  have c: "0 \<le> now - 5 * 60 * 1000" "now - 5 * 60 * 1000 \<le> maxInstant"
    using assms(1,2) by simp_all
  have all: "\<forall>tr \<in> set (take 10 entries). now - 5 * 60 * 1000 < fst tr \<and> fst tr \<le> maxInstant"
    using assms(3) by (auto simp: list_all_iff dest: in_set_takeD)
  then have r: "list_all (\<lambda>tr. 0 \<le> fst tr \<and> fst tr \<le> maxInstant) (take 10 entries)"
    using c(1) by (auto simp: list_all_iff)
  have "filter (\<lambda>e. toISOString (now - 5 * 60 * 1000) < timestamp e) (map stamped (take 10 entries)) =
      map stamped (filter (\<lambda>tr. now - 5 * 60 * 1000 < fst tr) (take 10 entries))"
    by (rule filter_stamped [OF c r])
  also have "filter (\<lambda>tr. now - 5 * 60 * 1000 < fst tr) (take 10 entries) = take 10 entries"
    using all by (simp add: filter_id_conv)
  finally have "length (filter (\<lambda>e. toISOString (now - 5 * 60 * 1000) < timestamp e)
      (take 10 (map stamped entries))) = 10"
    using assms(4) by (simp add: take_map)
  then show ?thesis
    unfolding getSystemHealth_def getErrorStats_def Let_def by simp
qed

text \<open>
  C3, at a ledger of eleven failures that are one minute old: eleven entries of the
  ledger lie within the last five minutes, and the status is \<open>warning\<close> with a
  count of ten, where the claim says \<open>critical\<close>.
\<close>

theorem getSystemHealth_eleven_recent:
  "length (filter (\<lambda>e. toISOString (now0 - 5 * 60 * 1000) < timestamp e) (errors eleven_recent)) = 11
   \<and> status (getSystemHealth now0 eleven_recent) = warning
   \<and> recentErrorCount (getSystemHealth now0 eleven_recent) = 10"
  unfolding getSystemHealth_def getErrorStats_def Let_def now0_def iso_5min iso_1min eleven_recent_def
  by (simp add: event_at_def)

section \<open>Properties of the remediation registry\<close>

lemma startsWith_iff: "startsWith s p \<longleftrightarrow> (\<exists>b. s = p @ b)"
  by (induction s p rule: startsWith.induct) auto

text \<open>\<open>str_includes\<close> is the occurrence of one string inside another.\<close>

lemma str_includes_iff: "str_includes s p \<longleftrightarrow> (\<exists>a b. s = a @ p @ b)"
proof (induction s)
  case Nil
  show ?case by (simp add: startsWith_iff)
next
  case (Cons c s)
  show ?case
  proof
    assume "str_includes (c # s) p"
    then consider "startsWith (c # s) p" | "str_includes s p" by auto
    then show "\<exists>a b. c # s = a @ p @ b"
    proof cases
      case 1
      then obtain b where "c # s = p @ b" by (auto simp: startsWith_iff)
      then have "c # s = [] @ p @ b" by simp
      then show ?thesis by blast
    next
      case 2
      then obtain a b where "s = a @ p @ b" using Cons.IH by blast
      then have "c # s = (c # a) @ p @ b" by simp
      then show ?thesis by blast
    qed
  next
    assume "\<exists>a b. c # s = a @ p @ b"
    then obtain a b where ab: "c # s = a @ p @ b" by blast
    show "str_includes (c # s) p"
    proof (cases a)
      case Nil
      with ab have "startsWith (c # s) p" by (auto simp: startsWith_iff)
      then show ?thesis by simp
    next
      case (Cons x a')
      with ab have "s = a' @ p @ b" by simp
      then have "str_includes s p" using Cons.IH by blast
      then show ?thesis by simp
    qed
  qed
qed


text \<open>Rules of equal priority stay in the order of their registration.\<close>

lemma sortFixesByPriority_stable:
  "filter (\<lambda>f. priority f = k) (sortFixesByPriority fs) = filter (\<lambda>f. priority f = k) fs"
proof -
  have "filter (\<lambda>f. - priority f = - k) (sort_key (\<lambda>f. - priority f) fs) =
        filter (\<lambda>f. - priority f = - k) fs"
    by (rule sort_key_stable)
  then show ?thesis unfolding sortFixesByPriority_def by simp
qed






text \<open>
  A call of \<^verbatim>\<open>test\<close> changes nothing of a regular expression but its
  \<^verbatim>\<open>lastIndex\<close>, and nothing at all without the \<^verbatim>\<open>g\<close> and \<^verbatim>\<open>y\<close> flags. So a
  call of \<^verbatim>\<open>matchesFix\<close> changes nothing of the rule but the \<^verbatim>\<open>lastIndex\<close> of
  its pattern, and nothing at all when the pattern is a string or a regular expression
  without these flags.
\<close>

lemma regexp_test_leaves:
  "snd (regexp_test re s) = re\<lparr> lastIndex := lastIndex (snd (regexp_test re s)) \<rparr>"
  unfolding regexp_test_def by (simp split: option.split)



lemma matchesFix_leaves_pattern:
  "matchesFix_leaves e f = f\<lparr> errorPattern := errorPattern (matchesFix_leaves e f) \<rparr>"
  unfolding matchesFix_leaves_def matchesFix_call_def Let_def by simp


lemma matchesFix_leaves_fix_id: "fix_id (matchesFix_leaves e f) = fix_id f"
  by (subst matchesFix_leaves_pattern) simp

lemma matchesFix_leaves_conditions: "conditions (matchesFix_leaves e f) = conditions f"
  by (subst matchesFix_leaves_pattern) simp

lemma matchesFix_leaves_StringPattern:
  "errorPattern f = Some (StringPattern p) \<Longrightarrow> matchesFix_leaves e f = f"
  unfolding matchesFix_leaves_def matchesFix_call_def Let_def by simp








text \<open>The registries of the examples, and which of their rules match the network error.\<close>

lemmas rule_defs = rule_low_def rule_high_def rule_tie_def rule_miss_def rule_off_def
  rule_global_def rule_throwing_def literal_regexp_def

lemmas falsy_defs = falsy_string_def falsy_pattern_def falsy_function_def

lemma two_rules_fixes: "this_fixes two_rules = [rule_high, rule_low]"
  unfolding two_rules_def registerFix_def Let_def new_registry_def sortFixesByPriority_def
  by (simp add: rule_defs falsy_defs)



lemma global_rules_eq:
  "global_rules = \<lparr> this_fixes = [rule_global, rule_low], fixHistory = [] \<rparr>"
  unfolding global_rules_def registerFix_def Let_def new_registry_def sortFixesByPriority_def
  by (simp add: rule_defs falsy_defs)



lemma matches_low: "matchesFix network_error rule_low"
  unfolding matchesFix_def matchesFix_call_def Let_def
  by (simp add: network_error_def rule_low_def)






lemma leaves_low: "matchesFix_leaves network_error rule_low = rule_low"
  by (rule matchesFix_leaves_StringPattern [of _ "''Network''"]) (simp add: rule_low_def)

text \<open>
  With the \<^verbatim>\<open>g\<close> flag on the pattern of the first rule, the calls of
  \<^verbatim>\<open>findFix\<close> on one registry and one error alternate: the first call finds the
  first rule and leaves \<^verbatim>\<open>lastIndex\<close> at 20, the end of "fetch" in the message; the
  second call starts the search there, finds nothing in the message, nothing in the
  empty stack, and returns the second rule, leaving the registry as it was at the
  start.
\<close>

lemma global_first_call:
  "matchesFix_call network_error rule_global =
     (True, rule_global\<lparr> errorPattern := Some (RegExpPattern
        ((literal_regexp [''fetch'', ''XHR''])\<lparr> re_global_or_sticky := True, lastIndex := 20 \<rparr>)) \<rparr>)"
  unfolding matchesFix_call_def test_either_def regexp_test_def Let_def
  by (simp add: network_error_def rule_global_def rule_high_def literal_regexp_def)

lemma global_second_call:
  "matchesFix_call network_error (rule_global\<lparr> errorPattern := Some (RegExpPattern
        ((literal_regexp [''fetch'', ''XHR''])\<lparr> re_global_or_sticky := True, lastIndex := 20 \<rparr>)) \<rparr>)
   = (False, rule_global)"
  unfolding matchesFix_call_def test_either_def regexp_test_def Let_def
  by (simp add: network_error_def rule_global_def rule_high_def literal_regexp_def)

lemma findFix_global_alternates:
  "findFix network_error global_rules =
     Some (rule_global\<lparr> errorPattern := Some (RegExpPattern
        ((literal_regexp [''fetch'', ''XHR''])\<lparr> re_global_or_sticky := True, lastIndex := 20 \<rparr>)) \<rparr>)
   \<and> findFix network_error (findFix_leaves network_error global_rules) = Some rule_low
   \<and> findFix_leaves network_error (findFix_leaves network_error global_rules) = global_rules"
proof -
  note l = leaves_low
  have a: "matchesFix network_error rule_global"
    unfolding matchesFix_def by (simp add: global_first_call)
  have b: "\<not> matchesFix network_error (matchesFix_leaves network_error rule_global)"
    unfolding matchesFix_def matchesFix_leaves_def
    by (simp add: global_first_call global_second_call)
  have c: "matchesFix_leaves network_error (matchesFix_leaves network_error rule_global)
      = rule_global"
    unfolding matchesFix_leaves_def by (simp add: global_first_call global_second_call)
  have d: "matchesFix_leaves network_error rule_global =
      rule_global\<lparr> errorPattern := Some (RegExpPattern
        ((literal_regexp [''fetch'', ''XHR''])\<lparr> re_global_or_sticky := True, lastIndex := 20 \<rparr>)) \<rparr>"
    unfolding matchesFix_leaves_def by (simp add: global_first_call)
  have 1: "findFix network_error global_rules = Some (matchesFix_leaves network_error rule_global)"
    unfolding global_rules_eq findFix_def using a by simp
  have 2: "findFix network_error (findFix_leaves network_error global_rules) = Some rule_low"
    unfolding global_rules_eq findFix_def findFix_leaves_def using a b l matches_low by simp
  have 3: "findFix_leaves network_error (findFix_leaves network_error global_rules) = global_rules"
    unfolding global_rules_eq findFix_leaves_def using a b c l matches_low by simp
  from 1 2 3 show ?thesis by (simp only: d simp_thms)
qed




text \<open>
  C6. \<^verbatim>\<open>registerFix\<close> throws when one of the fields it requires (\<^verbatim>\<open>id\<close>,
  \<^verbatim>\<open>name\<close>, \<^verbatim>\<open>errorPattern\<close>, \<^verbatim>\<open>fixFunction\<close>) is missing or empty, and
  throws when a rule of the registry has the id of the new rule; whenever it throws, the
  registry after the call is the registry before it. When it does not throw, the
  registry has one rule more.
\<close>

theorem registerFix_rejects:
  "(falsy_string (fix_id f) \<or> falsy_string (name f) \<or> falsy_pattern (errorPattern f)
      \<or> falsy_function (fixFunction f)
     \<longrightarrow> registerFix now f st = (Some InvalidFixRegistration, st))
   \<and> (list_ex (\<lambda>g. fix_id g = fix_id f) (this_fixes st)
     \<longrightarrow> fst (registerFix now f st) \<noteq> None \<and> snd (registerFix now f st) = st)
   \<and> (fst (registerFix now f st) \<noteq> None \<longrightarrow> snd (registerFix now f st) = st)
   \<and> (fst (registerFix now f st) = None \<longrightarrow>
        length (this_fixes (snd (registerFix now f st))) = Suc (length (this_fixes st)))"
  unfolding registerFix_def Let_def sortFixesByPriority_def by simp

theorem registerFix_rejects_witness:
  "falsy_string (name nameless_rule)
   \<and> registerFix now0 nameless_rule two_rules = (Some InvalidFixRegistration, two_rules)
   \<and> list_ex (\<lambda>g. fix_id g = fix_id rule_low) (this_fixes two_rules)
   \<and> fst (registerFix now0 rule_low two_rules) \<noteq> None
   \<and> snd (registerFix now0 rule_low two_rules) = two_rules
   \<and> fst (registerFix now0 rule_low new_registry) = None
   \<and> length (this_fixes (snd (registerFix now0 rule_low new_registry))) =
       Suc (length (this_fixes new_registry))"
proof -
  have a: "falsy_string (name nameless_rule)"
    by (simp add: nameless_rule_def falsy_string_def)
  have b: "list_ex (\<lambda>g. fix_id g = fix_id rule_low) (this_fixes two_rules)"
    by (simp add: two_rules_fixes)
  have c: "fst (registerFix now0 rule_low new_registry) = None"
    unfolding registerFix_def Let_def
    by (simp add: new_registry_def rule_low_def falsy_string_def falsy_pattern_def
        falsy_function_def)
  show ?thesis
    using a b c registerFix_rejects [of nameless_rule now0 two_rules]
      registerFix_rejects [of rule_low now0 two_rules]
      registerFix_rejects [of rule_low now0 new_registry]
    by blast
qed

lemma checkConditions_Throws: "Throws \<in> set cs \<Longrightarrow> \<not> checkConditions cs"
  by (induction cs rule: checkConditions.induct) auto

lemma matchesFix_Throws:
  "conditions f = Some cs \<Longrightarrow> Throws \<in> set cs \<Longrightarrow> \<not> matchesFix e f"
  unfolding matchesFix_def matchesFix_call_def Let_def by (simp add: checkConditions_Throws)

lemma findFix_loop_skip:
  "\<not> matchesFix e f \<Longrightarrow> findFix_loop e (before @ f # rest) = findFix_loop e (before @ rest)"
  by (induction before) simp_all

lemma guarded_rules_fixes: "this_fixes guarded_rules = [rule_throwing, rule_low]"
  unfolding guarded_rules_def registerFix_def Let_def new_registry_def sortFixesByPriority_def
  by (simp add: rule_defs falsy_defs)

text \<open>
  C10. A rule with a condition that throws does not match, and \<^verbatim>\<open>findFix\<close>
  returns what it returns on the registry without that rule: the exception stays inside
  \<^verbatim>\<open>matchesFix\<close>, the scan goes on, and a rule after it can be the result.
\<close>

theorem throwing_condition_skipped:
  assumes "conditions f = Some cs" and "Throws \<in> set cs"
    and "this_fixes st = before @ f # rest"
  shows "\<not> matchesFix e f \<and> findFix e st = findFix_loop e (before @ rest)"
  using assms unfolding findFix_def
  by (simp add: matchesFix_Throws findFix_loop_skip)

theorem throwing_condition_skipped_witness:
  "conditions rule_throwing = Some [Returns True, Throws]
   \<and> Throws \<in> set [Returns True, Throws :: bool outcome]
   \<and> this_fixes guarded_rules = [] @ rule_throwing # [rule_low]
   \<and> str_includes (message network_error) ''Network''
   \<and> \<not> matchesFix network_error rule_throwing
   \<and> findFix network_error guarded_rules = Some rule_low"
proof -
  have a: "conditions rule_throwing = Some [Returns True, Throws]"
    by (simp add: rule_throwing_def)
  have b: "Throws \<in> set [Returns True, Throws :: bool outcome]" by simp
  have c: "this_fixes guarded_rules = [] @ rule_throwing # [rule_low]"
    by (simp add: guarded_rules_fixes)
  have d: "str_includes (message network_error) ''Network''"
    by (simp add: network_error_def)
  have "findFix_loop network_error ([] @ [rule_low]) = Some rule_low"
    using matches_low leaves_low by simp
  with throwing_condition_skipped [OF a b c, of network_error] a b c d show ?thesis
    by simp
qed

text \<open>
  What one call of \<^verbatim>\<open>applyFix\<close> does to the statistics of the rule: a success
  counts one use and folds a 1 into the running mean; a failure counts one use and
  leaves the success rate as it is; an action that throws changes nothing.
\<close>

lemma applyFix_success:
  assumes "fixFunction f = Some g" and "g err = Returns True"
  shows "timesUsed (fst (snd (applyFix now err f history)))
           = Some (Suc (case timesUsed f of None \<Rightarrow> 0 | Some n \<Rightarrow> n))
    \<and> successRate (fst (snd (applyFix now err f history)))
           = Some (((case successRate f of None \<Rightarrow> 0 | Some r \<Rightarrow> r)
                     * real (case timesUsed f of None \<Rightarrow> 0 | Some n \<Rightarrow> n) + 1)
                   / real (Suc (case timesUsed f of None \<Rightarrow> 0 | Some n \<Rightarrow> n)))
    \<and> lastUsed (fst (snd (applyFix now err f history))) = Some (toISOString now)"
  using assms by (simp add: applyFix_def Let_def)

lemma applyFix_failure:
  assumes "fixFunction f = Some g" and "g err = Returns False"
  shows "timesUsed (fst (snd (applyFix now err f history)))
           = Some (Suc (case timesUsed f of None \<Rightarrow> 0 | Some n \<Rightarrow> n))
    \<and> successRate (fst (snd (applyFix now err f history))) = successRate f
    \<and> lastUsed (fst (snd (applyFix now err f history))) = Some (toISOString now)"
  using assms by (simp add: applyFix_def Let_def)

lemma applyFix_throws:
  assumes "fixFunction f = Some g" and "g err = Throws"
  shows "fst (applyFix now err f history) = False
    \<and> fst (snd (applyFix now err f history)) = f"
  using assms by (simp add: applyFix_def)

text \<open>
  C1, at a rule just registered and two applications, the first a success and the
  second a failure: the rule has been used twice and its success rate is 1, where the
  claim says 1/2 (the rate is recomputed only in the branch of a success). After one
  application whose action throws, the rule counts no use, where the claim says one.
\<close>

theorem applyFix_success_then_failure:
  "timesUsed (fst (applyFixes now0 1000 [error_of ''ok'', error_of ''bad''] (flaky_fix, [])))
     = Some 2
   \<and> successRate (fst (applyFixes now0 1000 [error_of ''ok'', error_of ''bad''] (flaky_fix, [])))
     = Some 1
   \<and> map attempt_success
       (snd (applyFixes now0 1000 [error_of ''ok'', error_of ''bad''] (flaky_fix, [])))
     = [True, False]
   \<and> timesUsed (fst (applyFixes now0 1000 [error_of ''throw''] (flaky_fix, []))) = Some 0"
  by (simp add: applyFix_def Let_def flaky_fix_def rule_low_def error_of_def)

section \<open>Properties of the console interceptor\<close>

lemma shouldFilterMessage_Literal:
  "filterPatterns cfg = Some ps \<Longrightarrow> Literal t \<in> set ps \<Longrightarrow> str_includes msg t
   \<Longrightarrow> shouldFilterMessage cfg msg"
  unfolding shouldFilterMessage_def by (auto simp: list_ex_iff intro!: bexI [of _ "Literal t"])

text \<open>
  C9. When the joined text of the arguments of an intercepted call contains a literal
  of \<^verbatim>\<open>filterPatterns\<close>, \<^verbatim>\<open>processMessage\<close> leaves the interceptor (its
  captured messages) and the error monitor (its ledger) as they are and calls no
  listener, at every level, the error level included.
\<close>

theorem filtered_message_dropped:
  assumes "filterPatterns (config ci) = Some ps" and "Literal t \<in> set ps"
    and "str_includes (join_space (map stringify_arg args)) t"
  shows "processMessage h now new_stack lvl args (ci, em) = (ci, em, [])"
  unfolding processMessage_def Let_def
  using shouldFilterMessage_Literal [OF assms] by simp

theorem filtered_message_dropped_witness:
  "filterPatterns (config noisy_interceptor) =
     Some [RegExp (\<lambda>s. str_includes s ''React DevTools''), Literal ''noisy-warning'']
   \<and> join_space (map stringify_arg [ArgString ''a'', ArgError (error_of ''noisy-warning: x'')])
       = ''a noisy-warning: x''
   \<and> str_includes ''a noisy-warning: x'' ''noisy-warning''
   \<and> processMessage server_host now0 None lvl_error
        [ArgString ''a'', ArgError (error_of ''noisy-warning: x'')]
        (noisy_interceptor, new_monitor) = (noisy_interceptor, new_monitor, [])"
proof -
  have a: "filterPatterns (config noisy_interceptor) =
      Some [RegExp (\<lambda>s. str_includes s ''React DevTools''), Literal ''noisy-warning'']"
    by (simp add: noisy_interceptor_def)
  have b: "Literal ''noisy-warning'' \<in>
      set [RegExp (\<lambda>s. str_includes s ''React DevTools''), Literal ''noisy-warning'']"
    by simp
  have j: "join_space (map stringify_arg [ArgString ''a'', ArgError (error_of ''noisy-warning: x'')])
      = ''a noisy-warning: x''"
    by (simp add: error_of_def)
  have c: "str_includes ''a noisy-warning: x'' ''noisy-warning''"
    by simp
  have c': "str_includes
      (join_space (map stringify_arg [ArgString ''a'', ArgError (error_of ''noisy-warning: x'')]))
      ''noisy-warning''"
    using c by (simp only: j)
  show ?thesis
    using filtered_message_dropped [OF a b c', of server_host now0 None lvl_error new_monitor] a j c
    by simp
qed

text \<open>
  The same interceptor on an error-level call that no pattern matches: the message is
  captured, both listeners are called and the failure reaches the ledger.
\<close>

lemma unfiltered_error_captured:
  "length (capturedMessages (fst (processMessage server_host now0 None lvl_error
        [ArgString ''plain failure''] (noisy_interceptor, new_monitor)))) = 1
   \<and> map fst (snd (snd (processMessage server_host now0 None lvl_error
        [ArgString ''plain failure''] (noisy_interceptor, new_monitor)))) = [0, 1]
   \<and> map (\<lambda>r. message (error r)) (errors (fst (snd (processMessage server_host now0 None
        lvl_error [ArgString ''plain failure''] (noisy_interceptor, new_monitor)))))
       = [''plain failure'']"
  by (simp add: processMessage_def Let_def shouldFilterMessage_def noisy_interceptor_def
      reportToErrorMonitor_def reportError_errors maxStoredErrors_def enhance_def new_monitor_def)

section \<open>Properties of the boundary\<close>

text \<open>
  C2, as stated, fails: the boundary whose children failed four times is exhausted
  with three attempts counted, and after \<^verbatim>\<open>handleManualRetry\<close> it shows its
  children again with three attempts still counted, not none.
\<close>

theorem handleManualRetry_keeps_attempts:
  "exhausted worn_out
   \<and> recoveryAttempts worn_out = maxRecoveryAttempts
   \<and> stable (handleManualRetry worn_out)
   \<and> recoveryAttempts (handleManualRetry worn_out) = 3"
  by (simp add: worn_out_def failure_def componentDidCatch_def attemptAutoRecovery_def
      getDerivedStateFromError_def recoveryTimer_def handleManualRetry_def initial_State_def
      maxRecoveryAttempts_def exhausted_def stable_def Let_def)

text \<open>
  C2, amended. From every state of the boundary, \<^verbatim>\<open>handleManualRetry\<close> leads to a
  stable state (the children are shown, no error is held, no recovery is in progress,
  no fix is marked as applied) and leaves the count of recovery attempts as it was.
\<close>

theorem handleManualRetry_stable:
  "stable (handleManualRetry s)
   \<and> recoveryAttempts (handleManualRetry s) = recoveryAttempts s
   \<and> st_error (handleManualRetry s) = None
   \<and> st_errorInfo (handleManualRetry s) = None
   \<and> \<not> isRecovering (handleManualRetry s)
   \<and> \<not> autoFixApplied (handleManualRetry s)"
  by (simp add: handleManualRetry_def stable_def)

end
